theory Spec2Isabelle
  imports Complex_Main "HOL-Library.Monad_Syntax"
begin

section \<open>Scene model (types.ts)\<close>

text \<open>
  JavaScript numbers are modelled as exact reals: the finite doubles without rounding.
  \<open>NaN\<close> and the infinities are outside the model, except for the initial values of the
  bounding box accumulators, which are written out below.
\<close>

datatype ShapeType = BOX | SPHERE | CYLINDER | CONE | TORUS | ICOSAHEDRON

type_synonym vec3 = "real \<times> real \<times> real"

text \<open>
  \<open>ModelPart\<close>: \<open>args\<close> is optional in the interface. \<open>scale\<close> is a required triple
  there, but \<open>normalizeModelData\<close> reads it as \<open>part.scale?.[i]\<close> and
  \<open>part.scale || [1, 1, 1]\<close>, so an absent \<open>scale\<close> is part of the model too.
  The field \<open>id\<close> is called \<open>part_id\<close> here.
\<close>

record ModelPart =
  part_id :: string
  type :: ShapeType
  position :: vec3
  rotation :: vec3
  scale :: "vec3 option"
  args :: "real list option"
  color :: string
  description :: string

text \<open>
  \<open>GeneratedModel\<close>: \<open>parts\<close> is required in the interface; the guard
  \<open>!model.parts\<close> of \<open>normalizeModelData\<close> is for a parsed object without it.
\<close>

record GeneratedModel =
  name :: string
  parts :: "ModelPart list option"

section \<open>normalizeModelData (geminiService.ts)\<close>

text \<open>\<open>v || 1\<close> on a number: 0 is the only falsy real.\<close>

definition orOne :: "real \<Rightarrow> real" where
  "orOne v = (if v = 0 then 1 else v)"

text \<open>\<open>part.args?.[i] || 1\<close>\<close>

definition argOr1 :: "ModelPart \<Rightarrow> nat \<Rightarrow> real" where
  "argOr1 p i =
     (case args p of
        None \<Rightarrow> 1
      | Some xs \<Rightarrow> if i < length xs then orOne (xs ! i) else 1)"

text \<open>\<open>sx, sy, sz\<close>: \<open>part.scale?.[i] || 1\<close>\<close>

definition scaleOr1 :: "ModelPart \<Rightarrow> vec3" where
  "scaleOr1 p =
     (case scale p of
        None \<Rightarrow> (1, 1, 1)
      | Some (a, b, c) \<Rightarrow> (orOne a, orOne b, orOne c))"

text \<open>The first \<open>switch\<close>: the half-extents \<open>(sizeX, sizeY, sizeZ)\<close> of a part.\<close>

definition partSize :: "ModelPart \<Rightarrow> vec3" where
  "partSize p =
     (case scaleOr1 p of (sx, sy, sz) \<Rightarrow>
        (case type p of
           BOX \<Rightarrow> (sx / 2, sy / 2, sz / 2)
         | CYLINDER \<Rightarrow>
             (let h = argOr1 p 2; r = max (argOr1 p 0) (argOr1 p 1) in (r, h / 2, r))
         | CONE \<Rightarrow>
             (let h = argOr1 p 2; r = max (argOr1 p 0) (argOr1 p 1) in (r, h / 2, r))
         | SPHERE \<Rightarrow> (let rad = argOr1 p 0 in (rad, rad, rad))
         | ICOSAHEDRON \<Rightarrow> (let rad = argOr1 p 0 in (rad, rad, rad))
         | TORUS \<Rightarrow> (sx, sy, sz)))"

record Bounds =
  minX :: real
  maxX :: real
  minY :: real
  maxY :: real
  minZ :: real
  maxZ :: real

text \<open>
  One iteration of \<open>model.parts.forEach\<close>. The accumulators start at \<open>Infinity\<close> and
  \<open>-Infinity\<close>; that state is \<open>None\<close>, and \<open>Math.min(Infinity, v) = v\<close>,
  \<open>Math.max(-Infinity, v) = v\<close> for a finite \<open>v\<close>.
\<close>

definition boundsStep :: "Bounds option \<Rightarrow> ModelPart \<Rightarrow> Bounds option" where
  "boundsStep acc p =
     (case position p of (x, y, z) \<Rightarrow>
      case partSize p of (sizeX, sizeY, sizeZ) \<Rightarrow>
        (case acc of
           None \<Rightarrow>
             Some \<lparr>minX = x - sizeX, maxX = x + sizeX,
                   minY = y - sizeY, maxY = y + sizeY,
                   minZ = z - sizeZ, maxZ = z + sizeZ\<rparr>
         | Some b \<Rightarrow>
             Some \<lparr>minX = min (minX b) (x - sizeX), maxX = max (maxX b) (x + sizeX),
                   minY = min (minY b) (y - sizeY), maxY = max (maxY b) (y + sizeY),
                   minZ = min (minZ b) (z - sizeZ), maxZ = max (maxZ b) (z + sizeZ)\<rparr>))"

definition computeBounds :: "ModelPart list \<Rightarrow> Bounds option" where
  "computeBounds ps = foldl boundsStep None ps"

text \<open>\<open>maxDim\<close>: each span is \<open>max - min || 1\<close>.\<close>

definition maxDimOf :: "Bounds \<Rightarrow> real" where
  "maxDimOf b =
     (let sizeX = orOne (maxX b - minX b);
          sizeY = orOne (maxY b - minY b);
          sizeZ = orOne (maxZ b - minZ b)
      in max sizeX (max sizeY sizeZ))"

text \<open>\<open>if (newArgs[i] !== undefined) newArgs[i] *= scaleFactor\<close>\<close>

definition mulArg :: "nat \<Rightarrow> real \<Rightarrow> real list \<Rightarrow> real list" where
  "mulArg i k xs = (if i < length xs then xs[i := xs ! i * k] else xs)"

text \<open>The body of \<open>model.parts.map\<close>: the second \<open>switch\<close>.\<close>

definition scalePart :: "real \<Rightarrow> ModelPart \<Rightarrow> ModelPart" where
  "scalePart scaleFactor p =
     (let newPos = (case position p of (x, y, z) \<Rightarrow>
                      (x * scaleFactor, y * scaleFactor, z * scaleFactor));
          newArgs = (case args p of None \<Rightarrow> [] | Some xs \<Rightarrow> xs);
          newScale = (case scale p of None \<Rightarrow> (1, 1, 1) | Some s \<Rightarrow> s);
          boxScale = (case newScale of (a, b, c) \<Rightarrow>
                        (a * scaleFactor, b * scaleFactor, c * scaleFactor));
          cylArgs = mulArg 2 scaleFactor (mulArg 1 scaleFactor (mulArg 0 scaleFactor newArgs));
          sphArgs = mulArg 0 scaleFactor newArgs;
          torArgs = mulArg 1 scaleFactor (mulArg 0 scaleFactor newArgs)
      in case type p of
           BOX \<Rightarrow> p\<lparr>position := newPos, args := Some newArgs, scale := Some boxScale\<rparr>
         | CYLINDER \<Rightarrow> p\<lparr>position := newPos, args := Some cylArgs, scale := Some newScale\<rparr>
         | CONE \<Rightarrow> p\<lparr>position := newPos, args := Some cylArgs, scale := Some newScale\<rparr>
         | SPHERE \<Rightarrow> p\<lparr>position := newPos, args := Some sphArgs, scale := Some newScale\<rparr>
         | ICOSAHEDRON \<Rightarrow>
             p\<lparr>position := newPos, args := Some sphArgs, scale := Some newScale\<rparr>
         | TORUS \<Rightarrow> p\<lparr>position := newPos, args := Some torArgs, scale := Some newScale\<rparr>)"

definition normalizeModelData :: "GeneratedModel \<Rightarrow> GeneratedModel" where
  "normalizeModelData model =
     (case parts model of
        None \<Rightarrow> model
      | Some ps \<Rightarrow>
          if ps = [] then model
          else (case computeBounds ps of
                  None \<Rightarrow> model
                | Some b \<Rightarrow>
                    let maxDim = maxDimOf b in
                    if maxDim = 0 then model
                    else let scaleFactor = 8 / maxDim in
                         model\<lparr>parts := Some (map (scalePart scaleFactor) ps)\<rparr>))"

text \<open>
  The \<open>maxDim\<close> that \<open>normalizeModelData\<close> computes for a model, when it gets that
  far (the model has parts and at least one of them).
\<close>

definition computedMaxDim :: "GeneratedModel \<Rightarrow> real option" where
  "computedMaxDim model =
     (case parts model of
        None \<Rightarrow> None
      | Some ps \<Rightarrow> if ps = [] then None else map_option maxDimOf (computeBounds ps))"

section \<open>cleanAndParseJSON (geminiService.ts)\<close>

text \<open>
  A JavaScript string is a sequence of UTF-16 code units. The model is for texts whose code
  units are below 256, one \<open>char\<close> each. \<open>isSpace\<close> is the class \<open>\s\<close> on that range:
  tab, line feed, vertical tab, form feed, carriage return, space and no-break space.
\<close>

datatype js_error = Error string

definition isSpace :: "char \<Rightarrow> bool" where
  "isSpace c =
     (c \<in> set [CHR 0x09, CHR 0x0A, CHR 0x0B, CHR 0x0C, CHR 0x0D, CHR '' '', CHR 0xA0])"

definition skipSpace :: "string \<Rightarrow> string" where
  "skipSpace cs = dropWhile isSpace cs"

text \<open>
  \<open>codeBlockRegex = /```(?:json)?\s*(\{[\s\S]*?\})\s*```/i\<close>, piece by piece.
  \<open>(?:json)?\<close> is greedy and case-insensitive; giving the tag back would leave \<open>\s*\<close>
  in front of a \<open>j\<close>, so backtracking into it never helps. The same holds for both
  \<open>\s*\<close>: what follows them is no white space.
\<close>

definition isJsonTag :: "string \<Rightarrow> bool" where
  "isJsonTag s =
     (case s of
        [c1, c2, c3, c4] \<Rightarrow>
          (c1 = CHR ''j'' \<or> c1 = CHR ''J'') \<and> (c2 = CHR ''s'' \<or> c2 = CHR ''S'') \<and>
          (c3 = CHR ''o'' \<or> c3 = CHR ''O'') \<and> (c4 = CHR ''n'' \<or> c4 = CHR ''N'')
      | _ \<Rightarrow> False)"

definition skipJsonTag :: "string \<Rightarrow> string" where
  "skipJsonTag cs = (if isJsonTag (take 4 cs) then drop 4 cs else cs)"

text \<open>\<open>\s*```\<close> at the start of the rest.\<close>

definition closesFence :: "string \<Rightarrow> bool" where
  "closesFence cs = (take 3 (skipSpace cs) = ''```'')"

text \<open>
  \<open>[\s\S]*?\}\<close> followed by \<open>\s*```\<close>: the lazy star stops at the first \<open>}\<close> after
  which the fence closes. The result is the matched text, the \<open>}\<close> included.
\<close>

fun lazyObject :: "string \<Rightarrow> string option" where
  "lazyObject [] = None"
| "lazyObject (c # cs) =
     (if c = CHR ''}'' \<and> closesFence cs then Some [c]
      else map_option ((#) c) (lazyObject cs))"

text \<open>The regular expression anchored at the start of \<open>cs\<close>; the result is group 1.\<close>

definition matchFenceAt :: "string \<Rightarrow> string option" where
  "matchFenceAt cs =
     (if take 3 cs = ''```'' then
        (case skipSpace (skipJsonTag (drop 3 cs)) of
           [] \<Rightarrow> None
         | c # rest \<Rightarrow>
             if c = CHR ''{'' then map_option ((#) c) (lazyObject rest) else None)
      else None)"

text \<open>\<open>text.match(codeBlockRegex)\<close>: the leftmost start position that matches.\<close>

fun codeBlockMatch :: "string \<Rightarrow> string option" where
  "codeBlockMatch [] = None"
| "codeBlockMatch (c # cs) =
     (case matchFenceAt (c # cs) of
        Some g \<Rightarrow> Some g
      | None \<Rightarrow> codeBlockMatch cs)"

text \<open>\<open>indexOf\<close> and \<open>lastIndexOf\<close> of one character; \<open>None\<close> is \<open>-1\<close>.\<close>

fun indexOf :: "char \<Rightarrow> string \<Rightarrow> nat option" where
  "indexOf ch [] = None"
| "indexOf ch (c # cs) = (if c = ch then Some 0 else map_option Suc (indexOf ch cs))"

fun lastIndexOf :: "char \<Rightarrow> string \<Rightarrow> nat option" where
  "lastIndexOf ch [] = None"
| "lastIndexOf ch (c # cs) =
     (case lastIndexOf ch cs of
        Some i \<Rightarrow> Some (Suc i)
      | None \<Rightarrow> if c = ch then Some 0 else None)"

text \<open>\<open>s.substring(a, b)\<close>: the arguments are swapped when \<open>a > b\<close>.\<close>

definition substring :: "string \<Rightarrow> nat \<Rightarrow> nat \<Rightarrow> string" where
  "substring s a b = drop (min a b) (take (max a b) s)"

text \<open>
  \<open>cleanText.replace(/,(\s*[}\]])/g, '$1')\<close>. \<open>commaTail\<close> matches group 1 right after
  a comma and returns it with the rest of the text; the scan goes on after the match.
\<close>

definition commaTail :: "string \<Rightarrow> (string \<times> string) option" where
  "commaTail cs =
     (case dropWhile isSpace cs of
        [] \<Rightarrow> None
      | c # rest \<Rightarrow>
          if c = CHR ''}'' \<or> c = CHR '']'' then Some (takeWhile isSpace cs @ [c], rest)
          else None)"

lemma commaTail_length: "commaTail cs = Some (g, rest) \<Longrightarrow> length rest < Suc (length cs)"
proof -
  assume a: "commaTail cs = Some (g, rest)"
  have "length (dropWhile isSpace cs) \<le> length cs"
    by (rule length_dropWhile_le)
  with a show ?thesis
    by (auto simp: commaTail_def split: list.splits if_splits)
qed

function stripTrailingCommas :: "string \<Rightarrow> string" where
  "stripTrailingCommas [] = []"
| "stripTrailingCommas (c # cs) =
     (if c = CHR '',''
      then (case commaTail cs of
              Some (g, rest) \<Rightarrow> g @ stripTrailingCommas rest
            | None \<Rightarrow> c # stripTrailingCommas cs)
      else c # stripTrailingCommas cs)"
  by pat_completeness auto
termination
  by (relation "measure length") (auto dest: commaTail_length)

text \<open>Steps 1 and 2: \<open>cleanText\<close> before the clean-up.\<close>

definition extractText :: "string \<Rightarrow> string" where
  "extractText text =
     (case codeBlockMatch text of
        Some g \<Rightarrow> g
      | None \<Rightarrow>
          (case (indexOf (CHR ''{'') text, lastIndexOf (CHR ''}'') text) of
             (Some firstOpen, Some lastClose) \<Rightarrow>
               if lastClose > firstOpen then substring text firstOpen (lastClose + 1)
               else text
           | _ \<Rightarrow> text))"

text \<open>Step 3: \<open>cleanText\<close> as \<open>JSON.parse\<close> receives it.\<close>

definition cleanText :: "string \<Rightarrow> string" where
  "cleanText text = stripTrailingCommas (extractText text)"

text \<open>
  \<open>JSON.parse\<close> belongs to the platform: it is the parameter \<open>parse\<close>, \<open>None\<close>
  where it throws.
  The two \<open>console.error\<close> lines write to the console only.
\<close>

definition cleanAndParseJSON :: "(string \<Rightarrow> 'j option) \<Rightarrow> string \<Rightarrow> js_error + 'j" where
  "cleanAndParseJSON parse text =
     (case parse (cleanText text) of
        Some v \<Rightarrow> Inr v
      | None \<Rightarrow>
          Inl (Error ''Could not interpret the model data. The design was too abstract.''))"

text \<open>
  \<open>generate3DModel\<close> after the key lookup: \<open>apiKey\<close> is the key found (if any),
  \<open>response\<close> what \<open>ai.models.generateContent\<close> gave, an error thrown or
  \<open>response.text\<close>. The \<open>catch\<close> block logs and throws the same error again.
  The parsed value is used at the type \<open>GeneratedModel\<close>, as the assertion
  \<open>as GeneratedModel\<close> has it.
\<close>

definition generate3DModel ::
  "(string \<Rightarrow> GeneratedModel option) \<Rightarrow> string option \<Rightarrow> js_error + string option
     \<Rightarrow> js_error + GeneratedModel" where
  "generate3DModel parse apiKey response =
     (if apiKey = None \<or> apiKey = Some []
      then Inl (Error ''API Key is missing. Please set VITE_API_KEY in .env file.'')
      else (case response of
              Inl e \<Rightarrow> Inl e
            | Inr None \<Rightarrow> Inl (Error ''No response from Gemini.'')
            | Inr (Some text) \<Rightarrow>
                if text = [] then Inl (Error ''No response from Gemini.'')
                else (case cleanAndParseJSON parse text of
                        Inl e \<Rightarrow> Inl e
                      | Inr data \<Rightarrow> Inr (normalizeModelData data))))"

section \<open>JSON.parse, for concrete inputs\<close>

text \<open>
  A model of the platform function \<open>JSON.parse\<close>, to instantiate the parameter of
  \<open>cleanAndParseJSON\<close> at concrete texts: the JSON grammar (values, objects, arrays,
  strings with their escapes, numbers, the three literals, JSON white space), \<open>None\<close>
  for a \<open>SyntaxError\<close>. A string value keeps its characters as written (escape
  sequences are checked, not decoded), an object keeps its members in the order written, and
  a number is its exact decimal value.
\<close>

datatype json =
    JNull
  | JBool bool
  | JNumber real
  | JString string
  | JArray "json list"
  | JObject "(string \<times> json) list"

definition jsonWs :: "char \<Rightarrow> bool" where
  "jsonWs c = (c \<in> set [CHR '' '', CHR 0x09, CHR 0x0A, CHR 0x0D])"

definition skipWs :: "string \<Rightarrow> string" where
  "skipWs cs = dropWhile jsonWs cs"

definition isDigit :: "char \<Rightarrow> bool" where
  "isDigit c = (c \<in> set ''0123456789'')"

definition isHexDigit :: "char \<Rightarrow> bool" where
  "isHexDigit c = (c \<in> set ''0123456789abcdefABCDEF'')"

definition digitValue :: "char \<Rightarrow> nat" where
  "digitValue c = of_char c - 48"

definition digitsValue :: "string \<Rightarrow> nat" where
  "digitsValue ds = foldl (\<lambda>n d. 10 * n + digitValue d) 0 ds"

text \<open>After the opening quote: the characters up to the closing quote, and the rest.\<close>

fun parseStringBody :: "string \<Rightarrow> (string \<times> string) option" where
  "parseStringBody [] = None"
| "parseStringBody (c # cs) =
     (if c = CHR 0x22 then Some ([], cs)
      else if c = CHR 0x5C then
        (case cs of
           [] \<Rightarrow> None
         | e # cs' \<Rightarrow>
             if e \<in> set [CHR 0x22, CHR 0x5C, CHR ''/'', CHR ''b'', CHR ''f'', CHR ''n'',
                          CHR ''r'', CHR ''t'']
             then map_option (apfst (\<lambda>s. c # e # s)) (parseStringBody cs')
             else if e = CHR ''u'' \<and> length (take 4 cs') = 4 \<and> list_all isHexDigit (take 4 cs')
             then map_option (apfst (\<lambda>s. c # e # take 4 cs' @ s)) (parseStringBody (drop 4 cs'))
             else None)
      else if (of_char c :: nat) < 32 then None
      else map_option (apfst ((#) c)) (parseStringBody cs))"

definition parseNumber :: "string \<Rightarrow> (real \<times> string) option" where
  "parseNumber cs =
     (let neg = (take 1 cs = ''-'');
          cs1 = (if neg then drop 1 cs else cs);
          intDigits = (if take 1 cs1 = ''0'' then ''0'' else takeWhile isDigit cs1);
          cs2 = drop (length intDigits) cs1;
          hasFrac = (take 1 cs2 = ''.'');
          fracDigits = (if hasFrac then takeWhile isDigit (drop 1 cs2) else []);
          cs3 = (if hasFrac then drop (1 + length fracDigits) cs2 else cs2);
          hasExp = (take 1 cs3 = ''e'' \<or> take 1 cs3 = ''E'');
          cs4 = (if hasExp then drop 1 cs3 else cs3);
          expNeg = (hasExp \<and> take 1 cs4 = ''-'');
          cs5 = (if hasExp \<and> (take 1 cs4 = ''-'' \<or> take 1 cs4 = ''+'') then drop 1 cs4
                 else cs4);
          expDigits = (if hasExp then takeWhile isDigit cs5 else []);
          cs6 = drop (length expDigits) cs5;
          mantissa = real (digitsValue intDigits)
                     + real (digitsValue fracDigits) / 10 ^ length fracDigits;
          magnitude = (if expNeg then mantissa / 10 ^ digitsValue expDigits
                       else mantissa * 10 ^ digitsValue expDigits)
      in if intDigits = [] \<or> (hasFrac \<and> fracDigits = []) \<or> (hasExp \<and> expDigits = [])
         then None
         else Some (if neg then - magnitude else magnitude, cs6))"

text \<open>
  The first argument bounds the number of nested calls; \<open>JSON_parse\<close> gives more than
  a text of its length can use.
\<close>

fun parseValue :: "nat \<Rightarrow> string \<Rightarrow> (json \<times> string) option"
  and parseElements :: "nat \<Rightarrow> string \<Rightarrow> (json list \<times> string) option"
  and parseMembers :: "nat \<Rightarrow> string \<Rightarrow> ((string \<times> json) list \<times> string) option"
where
  "parseValue 0 cs = None"
| "parseValue (Suc n) cs =
     (if take 1 cs = ''{'' then
        (if take 1 (skipWs (drop 1 cs)) = ''}''
         then Some (JObject [], drop 1 (skipWs (drop 1 cs)))
         else map_option (apfst JObject) (parseMembers n (skipWs (drop 1 cs))))
      else if take 1 cs = ''['' then
        (if take 1 (skipWs (drop 1 cs)) = '']''
         then Some (JArray [], drop 1 (skipWs (drop 1 cs)))
         else map_option (apfst JArray) (parseElements n (skipWs (drop 1 cs))))
      else if take 1 cs = [CHR 0x22] then
        map_option (apfst JString) (parseStringBody (drop 1 cs))
      else if take 4 cs = ''true'' then Some (JBool True, drop 4 cs)
      else if take 5 cs = ''false'' then Some (JBool False, drop 5 cs)
      else if take 4 cs = ''null'' then Some (JNull, drop 4 cs)
      else map_option (apfst JNumber) (parseNumber cs))"
| "parseElements 0 cs = None"
| "parseElements (Suc n) cs =
     (case parseValue n cs of
        None \<Rightarrow> None
      | Some (v, r) \<Rightarrow>
          if take 1 (skipWs r) = '','' then
            map_option (apfst ((#) v)) (parseElements n (skipWs (drop 1 (skipWs r))))
          else if take 1 (skipWs r) = '']'' then Some ([v], drop 1 (skipWs r))
          else None)"
| "parseMembers 0 cs = None"
| "parseMembers (Suc n) cs =
     (if take 1 cs = [CHR 0x22] then
        (case parseStringBody (drop 1 cs) of
           None \<Rightarrow> None
         | Some (k, r1) \<Rightarrow>
             if take 1 (skipWs r1) = '':'' then
               (case parseValue n (skipWs (drop 1 (skipWs r1))) of
                  None \<Rightarrow> None
                | Some (v, r2) \<Rightarrow>
                    if take 1 (skipWs r2) = '','' then
                      map_option (apfst ((#) (k, v)))
                        (parseMembers n (skipWs (drop 1 (skipWs r2))))
                    else if take 1 (skipWs r2) = ''}'' then
                      Some ([(k, v)], drop 1 (skipWs r2))
                    else None)
             else None)
      else None)"

definition JSON_parse :: "string \<Rightarrow> json option" where
  "JSON_parse text =
     (case parseValue (2 * length text + 2) (skipWs text) of
        None \<Rightarrow> None
      | Some (v, rest) \<Rightarrow> if skipWs rest = [] then Some v else None)"

section \<open>The interface GeneratedModel on a parsed value\<close>

text \<open>
  \<open>JSON.parse(cleanText) as GeneratedModel\<close> checks nothing. These functions read a
  parsed value that has the shape of the interfaces \<open>GeneratedModel\<close> and
  \<open>ModelPart\<close> of types.ts as a record, with \<open>args\<close>, \<open>scale\<close> and \<open>parts\<close>
  allowed to be absent; for a value of any other shape they give \<open>None\<close>, and the
  records do not stand for it. A member that occurs twice counts with its last value.
\<close>

definition field :: "string \<Rightarrow> json \<Rightarrow> json option" where
  "field k v = (case v of JObject fs \<Rightarrow> map_of (rev fs) k | _ \<Rightarrow> None)"

definition asString :: "json \<Rightarrow> string option" where
  "asString v = (case v of JString s \<Rightarrow> Some s | _ \<Rightarrow> None)"

definition asNumber :: "json \<Rightarrow> real option" where
  "asNumber v = (case v of JNumber x \<Rightarrow> Some x | _ \<Rightarrow> None)"

fun allSome :: "'a option list \<Rightarrow> 'a list option" where
  "allSome [] = Some []"
| "allSome (x # xs) =
     (case x of
        None \<Rightarrow> None
      | Some y \<Rightarrow> map_option ((#) y) (allSome xs))"

definition asNumbers :: "json \<Rightarrow> real list option" where
  "asNumbers v = (case v of JArray xs \<Rightarrow> allSome (map asNumber xs) | _ \<Rightarrow> None)"

definition asVec3 :: "json \<Rightarrow> vec3 option" where
  "asVec3 v = (case asNumbers v of Some [a, b, c] \<Rightarrow> Some (a, b, c) | _ \<Rightarrow> None)"

definition asShapeType :: "json \<Rightarrow> ShapeType option" where
  "asShapeType v =
     (if v = JString ''box'' then Some BOX
      else if v = JString ''sphere'' then Some SPHERE
      else if v = JString ''cylinder'' then Some CYLINDER
      else if v = JString ''cone'' then Some CONE
      else if v = JString ''torus'' then Some TORUS
      else if v = JString ''icosahedron'' then Some ICOSAHEDRON
      else None)"

definition optionalField :: "string \<Rightarrow> (json \<Rightarrow> 'a option) \<Rightarrow> json \<Rightarrow> 'a option option" where
  "optionalField k f v = (case field k v of None \<Rightarrow> Some None | Some x \<Rightarrow> map_option Some (f x))"

definition asModelPart :: "json \<Rightarrow> ModelPart option" where
  "asModelPart v =
     do {
       i \<leftarrow> Option.bind (field ''id'' v) asString;
       k \<leftarrow> Option.bind (field ''type'' v) asShapeType;
       p \<leftarrow> Option.bind (field ''position'' v) asVec3;
       r \<leftarrow> Option.bind (field ''rotation'' v) asVec3;
       s \<leftarrow> optionalField ''scale'' asVec3 v;
       a \<leftarrow> optionalField ''args'' asNumbers v;
       c \<leftarrow> Option.bind (field ''color'' v) asString;
       d \<leftarrow> Option.bind (field ''description'' v) asString;
       Some \<lparr>part_id = i, type = k, position = p, rotation = r, scale = s, args = a,
             color = c, description = d\<rparr>
     }"

definition asModelParts :: "json \<Rightarrow> ModelPart list option" where
  "asModelParts v = (case v of JArray xs \<Rightarrow> allSome (map asModelPart xs) | _ \<Rightarrow> None)"

definition asGeneratedModel :: "json \<Rightarrow> GeneratedModel option" where
  "asGeneratedModel v =
     do {
       n \<leftarrow> Option.bind (field ''name'' v) asString;
       ps \<leftarrow> optionalField ''parts'' asModelParts v;
       Some \<lparr>name = n, parts = ps\<rparr>
     }"

text \<open>
  \<open>JSON_parse\<close> with the value read as a record: it stands for \<open>JSON.parse\<close> on
  the texts that do not parse and on those whose value has the shape of the interface.
\<close>

definition parseModel :: "string \<Rightarrow> GeneratedModel option" where
  "parseModel s = Option.bind (JSON_parse s) asGeneratedModel"

section \<open>App.tsx: build speed, failure of a generation, view buttons\<close>

text \<open>
  Lines 112 to 115 of \<open>handleGenerate\<close>: the value given to \<open>setBuildingSpeed\<close>.
  \<open>None\<close>: \<open>generatedData.parts\<close> is absent and reading its \<open>length\<close> throws.
\<close>

definition deriveBuildingSpeed :: "GeneratedModel \<Rightarrow> int option" where
  "deriveBuildingSpeed generatedData =
     (case parts generatedData of
        None \<Rightarrow> None
      | Some ps \<Rightarrow>
          let partCount = (if length ps = 0 then 1 else length ps);
              speed = (if partCount = 1 then 100 else min 500 (2000 / real partCount))
          in Some \<lfloor>speed\<rfloor>)"

record GenerationState =
  isGenerating :: bool
  progress :: nat
  status :: string

text \<open>\<open>Notification\<close>: the field \<open>type\<close> is called \<open>ntype\<close> here.\<close>

record Notification =
  ntype :: string
  message :: string

text \<open>
  \<open>viewState\<close> is an object \<open>{ mode, t }\<close>; React compares effect dependencies by
  object identity, so the object carries one (\<open>objectId\<close>), fresh for every object
  literal evaluated. The field \<open>t\<close> is called \<open>tstamp\<close> here.
\<close>

record ViewState =
  objectId :: nat
  mode :: string
  tstamp :: nat

text \<open>The state hooks of \<open>App\<close> that the handlers below write.\<close>

record AppState =
  generationState :: GenerationState
  notification :: "Notification option"
  viewState :: ViewState
  activeMenu :: "string option"
  nextObjectId :: nat

text \<open>The \<open>catch\<close> block of \<open>handleGenerate\<close>; the interval timer is not part of the state.\<close>

definition handleGenerateCatch :: "js_error \<Rightarrow> AppState \<Rightarrow> AppState" where
  "handleGenerateCatch err st =
     (case err of Error msg \<Rightarrow>
        st\<lparr>notification :=
             Some \<lparr>ntype = ''error'',
                   message = (if msg = [] then ''GENERATION FAILED'' else msg)\<rparr>,
           generationState := \<lparr>isGenerating = False, progress = 0, status = ''ERROR''\<rparr>\<rparr>)"

text \<open>\<open>handleViewChange\<close>; \<open>now\<close> is the value of \<open>Date.now()\<close>.\<close>

definition handleViewChange :: "string \<Rightarrow> nat \<Rightarrow> AppState \<Rightarrow> AppState" where
  "handleViewChange viewMode now st =
     st\<lparr>viewState := \<lparr>objectId = nextObjectId st, mode = viewMode, tstamp = now\<rparr>,
        nextObjectId := Suc (nextObjectId st),
        activeMenu := None\<rparr>"

section \<open>Viewer3D.tsx: CameraController\<close>

record Camera =
  cameraPosition :: vec3
  controlsTarget :: vec3

text \<open>The body of the effect; \<open>controls\<close> tells whether the orbit controls are there yet.\<close>

definition cameraEffect :: "bool \<Rightarrow> ViewState \<Rightarrow> Camera \<Rightarrow> Camera" where
  "cameraEffect controls vs cam =
     (if \<not> controls then cam
      else let distance = 15;
               pos = (if mode vs = ''TOP'' then (0, distance, 0)
                      else if mode vs = ''BOTTOM'' then (0, - distance, 0)
                      else if mode vs = ''FRONT'' then (0, 0, distance)
                      else if mode vs = ''SIDE'' then (distance, 0, 0)
                      else (10, 10, 10))
           in \<lparr>cameraPosition = pos, controlsTarget = (0, 0, 0)\<rparr>)"

text \<open>
  The component with its \<open>useEffect\<close>: React runs the effect after a render when a
  dependency differs from the one of the last run. The dependencies are \<open>viewState\<close>
  (by identity), \<open>camera\<close> (one object throughout) and \<open>controls\<close>.
  \<open>effectRuns\<close> counts the runs.
\<close>

record CameraController =
  camera :: Camera
  lastDeps :: "(nat \<times> bool) option"
  effectRuns :: nat

definition renderCameraController ::
  "bool \<Rightarrow> ViewState \<Rightarrow> CameraController \<Rightarrow> CameraController" where
  "renderCameraController controls vs cc =
     (if lastDeps cc = Some (objectId vs, controls) then cc
      else \<lparr>camera = cameraEffect controls vs (camera cc),
            lastDeps = Some (objectId vs, controls),
            effectRuns = Suc (effectRuns cc)\<rparr>)"

text \<open>A click on a view button: the handler, then the render it causes.\<close>

definition viewButtonClicked ::
  "bool \<Rightarrow> string \<Rightarrow> nat \<Rightarrow> AppState \<times> CameraController \<Rightarrow> AppState \<times> CameraController" where
  "viewButtonClicked controls viewMode now s =
     (let app = handleViewChange viewMode now (fst s)
      in (app, renderCameraController controls (viewState app) (snd s)))"

section \<open>Viewer3D.tsx: the reveal of the parts\<close>

text \<open>
  The props \<open>model\<close> and \<open>buildingSpeed\<close> and the state \<open>visiblePartsCount\<close>.
  Time is counted in timeouts: one step is the pending \<open>setTimeout\<close> of the second
  effect running out, \<open>buildingSpeed\<close> after it was set.
\<close>

record Viewer3D =
  model :: "GeneratedModel option"
  buildingSpeed :: int
  visiblePartsCount :: nat

text \<open>A new \<open>model\<close> prop: the first effect sets the count to 0.\<close>

definition modelAssigned :: "GeneratedModel option \<Rightarrow> Viewer3D \<Rightarrow> Viewer3D" where
  "modelAssigned m v = v\<lparr>model := m, visiblePartsCount := 0\<rparr>"

text \<open>
  The second effect: whether a timeout is pending. \<open>None\<close>: the model has no
  \<open>parts\<close> and reading \<open>model.parts.length\<close> throws.
\<close>

definition timerPending :: "Viewer3D \<Rightarrow> bool option" where
  "timerPending v =
     (case model v of
        None \<Rightarrow> Some False
      | Some m \<Rightarrow>
          (case parts m of
             None \<Rightarrow> None
           | Some ps \<Rightarrow> Some (visiblePartsCount v < length ps)))"

text \<open>One delay of \<open>buildingSpeed\<close> passes: a pending timeout runs its callback.\<close>

definition delayElapsed :: "Viewer3D \<Rightarrow> Viewer3D option" where
  "delayElapsed v =
     (case timerPending v of
        None \<Rightarrow> None
      | Some pending \<Rightarrow>
          Some (if pending then v\<lparr>visiblePartsCount := visiblePartsCount v + 1\<rparr> else v))"

fun delaysElapsed :: "nat \<Rightarrow> Viewer3D \<Rightarrow> Viewer3D option" where
  "delaysElapsed 0 v = Some v"
| "delaysElapsed (Suc n) v =
     (case delayElapsed v of
        None \<Rightarrow> None
      | Some v' \<Rightarrow> delaysElapsed n v')"

text \<open>\<open>isVisible={index < visiblePartsCount}\<close>\<close>

definition isVisible :: "Viewer3D \<Rightarrow> nat \<Rightarrow> bool" where
  "isVisible v index = (index < visiblePartsCount v)"

section \<open>Notions used in the statements about normalizeModelData\<close>


text \<open>A vector, the effective \<open>args\<close> and \<open>scale\<close> of a part, and a list with its
  first \<open>n\<close> entries multiplied.\<close>

definition scaleVec :: "real \<Rightarrow> vec3 \<Rightarrow> vec3" where
  "scaleVec k v = (case v of (a, b, c) \<Rightarrow> (a * k, b * k, c * k))"

definition argsOrEmpty :: "ModelPart \<Rightarrow> real list" where
  "argsOrEmpty p = (case args p of None \<Rightarrow> [] | Some xs \<Rightarrow> xs)"

definition scaleOrUnit :: "ModelPart \<Rightarrow> vec3" where
  "scaleOrUnit p = (case scale p of None \<Rightarrow> (1, 1, 1) | Some s \<Rightarrow> s)"

definition mulPrefix :: "nat \<Rightarrow> real \<Rightarrow> real list \<Rightarrow> real list" where
  "mulPrefix n k xs = map (\<lambda>a. a * k) (take n xs) @ drop n xs"






text \<open>How many leading entries of \<open>args\<close> the rescaling multiplies, by kind.\<close>

definition scaledArgCount :: "ShapeType \<Rightarrow> nat" where
  "scaledArgCount k =
     (case k of BOX \<Rightarrow> 0 | SPHERE \<Rightarrow> 1 | ICOSAHEDRON \<Rightarrow> 1 | CYLINDER \<Rightarrow> 3 | CONE \<Rightarrow> 3
      | TORUS \<Rightarrow> 2)"



definition tableTop :: ModelPart where
  "tableTop =
     \<lparr>part_id = ''part_01'', type = BOX, position = (0, 2, 0), rotation = (0, 0, 0),
      scale = Some (4, 1 / 2, 2), args = Some [], color = ''#8B4513'',
      description = ''Table_Top''\<rparr>"

definition tableLeg :: ModelPart where
  "tableLeg =
     \<lparr>part_id = ''part_02'', type = CYLINDER, position = (1, 1, 0), rotation = (0, 0, 0),
      scale = Some (1, 1, 1), args = Some [1 / 4, 1 / 4, 2, 32], color = ''#8B4513'',
      description = ''Table_Leg''\<rparr>"

definition tableKnob :: ModelPart where
  "tableKnob =
     \<lparr>part_id = ''part_03'', type = SPHERE, position = (0, 5 / 2, 0), rotation = (0, 0, 0),
      scale = Some (1, 1, 1), args = Some [1 / 2], color = ''#FFD700'',
      description = ''Knob''\<rparr>"

definition tableModel :: GeneratedModel where
  "tableModel = \<lparr>name = ''Table'', parts = Some [tableTop, tableLeg, tableKnob]\<rparr>"


text \<open>A sphere without \<open>args\<close>, which the schema allows.\<close>

definition bareSphereModel :: GeneratedModel where
  "bareSphereModel =
     \<lparr>name = ''Ball'', parts = Some [tableKnob\<lparr>position := (3, 0, 0), args := None\<rparr>]\<rparr>"

text \<open>
  Two boxes with negative scale, placed so that the bounding box has span 0 on every axis.
\<close>

definition flatModel :: GeneratedModel where
  "flatModel =
     \<lparr>name = ''Flat'',
      parts = Some [tableTop\<lparr>position := (0, 0, 0), scale := Some (- 2, - 2, - 2)\<rparr>,
                    tableTop\<lparr>position := (2, 2, 2), scale := Some (- 2, - 2, - 2)\<rparr>]\<rparr>"


section \<open>Notions used in the statements about the application and the viewer\<close>

text \<open>A model with \<open>n\<close> parts.\<close>

definition partsOfLength :: "nat \<Rightarrow> GeneratedModel" where
  "partsOfLength n = \<lparr>name = ''Model'', parts = Some (replicate n tableKnob)\<rparr>"

text \<open>
  The distance of a point from the origin; an invariant of the object identities (every
  identity in use was handed out before \<open>nextObjectId\<close>); the camera position that
  the effect sets for a mode; the application as it starts and the camera controller after
  its first render.
\<close>

definition distanceToOrigin :: "vec3 \<Rightarrow> real" where
  "distanceToOrigin p = (case p of (x, y, z) \<Rightarrow> sqrt (x\<^sup>2 + y\<^sup>2 + z\<^sup>2))"

definition wellAllocated :: "AppState \<times> CameraController \<Rightarrow> bool" where
  "wellAllocated s =
     (objectId (viewState (fst s)) < nextObjectId (fst s) \<and>
      (case lastDeps (snd s) of
         None \<Rightarrow> True
       | Some (oid, c) \<Rightarrow> oid < nextObjectId (fst s)))"

definition cameraFor :: "string \<Rightarrow> vec3" where
  "cameraFor viewMode =
     cameraPosition (cameraEffect True \<lparr>objectId = 0, mode = viewMode, tstamp = 0\<rparr>
                       \<lparr>cameraPosition = (0, 0, 0), controlsTarget = (1, 1, 1)\<rparr>)"

definition initialApp :: AppState where
  "initialApp =
     \<lparr>generationState = \<lparr>isGenerating = False, progress = 0, status = ''IDLE''\<rparr>,
      notification = None,
      viewState = \<lparr>objectId = 0, mode = ''ISO'', tstamp = 1000\<rparr>,
      activeMenu = None,
      nextObjectId = 1\<rparr>"

definition mountedCamera :: CameraController where
  "mountedCamera =
     renderCameraController True (viewState initialApp)
       \<lparr>camera = \<lparr>cameraPosition = (10, 10, 10), controlsTarget = (0, 0, 0)\<rparr>,
        lastDeps = None, effectRuns = 0\<rparr>"

text \<open>A viewer without a model.\<close>

definition idleViewer :: Viewer3D where
  "idleViewer = \<lparr>model = None, buildingSpeed = 150, visiblePartsCount = 0\<rparr>"

section \<open>Notions used in the statements about cleanAndParseJSON\<close>

text \<open>
  A text without its trailing commas: every comma that is followed, after white space or
  none, by \<open>}\<close> or \<open>]\<close> is left out.
\<close>

fun dropTrailingCommas :: "string \<Rightarrow> string" where
  "dropTrailingCommas [] = []"
| "dropTrailingCommas (c # cs) =
     (if c = CHR '','' \<and>
         (case dropWhile isSpace cs of [] \<Rightarrow> False | b # rest \<Rightarrow> b = CHR ''}'' \<or> b = CHR '']'')
      then dropTrailingCommas cs
      else c # dropTrailingCommas cs)"

text \<open>The error that \<open>cleanAndParseJSON\<close> throws.\<close>

definition modelInterpretationError :: js_error where
  "modelInterpretationError =
     Error ''Could not interpret the model data. The design was too abstract.''"

text \<open>
  Replies of the service: a fenced object with trailing commas after a preamble, with the
  object of the fence before and after the clean-up; an object inside prose; prose only;
  an object without \<open>parts\<close>.
\<close>

definition fencedReply :: string where
  "fencedReply =
     ''Sure! ```json'' @ [CHR 0x0A] @
     ''{\"name\":\"Cube\",\"parts\":[{\"id\":\"part_01\",\"type\":\"box\",'' @
     ''\"position\":[0,1,0],\"rotation\":[0,0,0],\"scale\":[2,2,2],'' @
     ''\"color\":\"#FF0000\",\"description\":\"Body\",}],}'' @ [CHR 0x0A] @ ''```''"

definition proseReply :: string where
  "proseReply = ''Here is the result {\"name\":\"X\",\"parts\":[]} thanks''"

definition fencedObject :: string where
  "fencedObject =
     ''{\"name\":\"Cube\",\"parts\":[{\"id\":\"part_01\",\"type\":\"box\",'' @
     ''\"position\":[0,1,0],\"rotation\":[0,0,0],\"scale\":[2,2,2],'' @
     ''\"color\":\"#FF0000\",\"description\":\"Body\",}],}''"

definition fencedClean :: string where
  "fencedClean =
     ''{\"name\":\"Cube\",\"parts\":[{\"id\":\"part_01\",\"type\":\"box\",'' @
     ''\"position\":[0,1,0],\"rotation\":[0,0,0],\"scale\":[2,2,2],'' @
     ''\"color\":\"#FF0000\",\"description\":\"Body\"}]}''"

definition proseObject :: string where
  "proseObject = ''{\"name\":\"X\",\"parts\":[]}''"

definition plainReply :: string where
  "plainReply = ''The design is a plain cube.''"

definition namedOnlyReply :: string where
  "namedOnlyReply = ''{\"name\":\"X\"}''"

section \<open>normalizeModelData: scaling of a part and of the bounding box\<close>

lemma mulArg_0: "mulArg 0 k xs = mulPrefix (Suc 0) k xs"
  by (cases xs) (simp_all add: mulArg_def mulPrefix_def)

lemma mulArg_1: "mulArg (Suc 0) k (mulPrefix (Suc 0) k xs) = mulPrefix 2 k xs"
proof (cases xs)
  case Nil then show ?thesis by (simp add: mulArg_def mulPrefix_def)
next
  case (Cons a ys)
  then show ?thesis by (cases ys) (simp_all add: mulArg_def mulPrefix_def numeral_2_eq_2)
qed

lemma mulArg_2: "mulArg 2 k (mulPrefix 2 k xs) = mulPrefix 3 k xs"
proof (cases xs)
  case Nil then show ?thesis by (simp add: mulArg_def mulPrefix_def)
next
  case (Cons a ys)
  show ?thesis
  proof (cases ys)
    case Nil with Cons show ?thesis by (simp add: mulArg_def mulPrefix_def numeral_2_eq_2)
  next
    case (Cons b zs)
    with \<open>xs = a # ys\<close> show ?thesis
      by (cases zs) (simp_all add: mulArg_def mulPrefix_def numeral_2_eq_2 numeral_3_eq_3)
  qed
qed

lemma type_scalePart: "type (scalePart k p) = type p"
  by (cases "type p") (simp_all add: scalePart_def Let_def)

lemma position_scalePart: "position (scalePart k p) = scaleVec k (position p)"
  by (cases "type p") (simp_all add: scalePart_def scaleVec_def Let_def)

lemma args_scalePart:
  "args (scalePart k p) =
     Some (mulPrefix (case type p of BOX \<Rightarrow> 0 | SPHERE \<Rightarrow> 1 | ICOSAHEDRON \<Rightarrow> 1
                      | CYLINDER \<Rightarrow> 3 | CONE \<Rightarrow> 3 | TORUS \<Rightarrow> 2) k (argsOrEmpty p))"
proof -
  have 0: "mulPrefix 0 k (argsOrEmpty p) = argsOrEmpty p" by (simp add: mulPrefix_def)
  have e: "(case args p of None \<Rightarrow> [] | Some xs \<Rightarrow> xs) = argsOrEmpty p"
    by (simp add: argsOrEmpty_def)
  show ?thesis
    by (cases "type p") (simp_all add: scalePart_def Let_def e mulArg_0 mulArg_1 mulArg_2 0)
qed

lemma scale_scalePart:
  "scale (scalePart k p) =
     Some (if type p = BOX then scaleVec k (scaleOrUnit p) else scaleOrUnit p)"
proof -
  have e: "(case scale p of None \<Rightarrow> (1, 1, 1) | Some s \<Rightarrow> s) = scaleOrUnit p"
    by (simp add: scaleOrUnit_def)
  show ?thesis
    by (cases "type p") (simp_all add: scalePart_def Let_def e scaleVec_def)
qed

lemma other_scalePart:
  "part_id (scalePart k p) = part_id p \<and> rotation (scalePart k p) = rotation p \<and>
   color (scalePart k p) = color p \<and> description (scalePart k p) = description p"
  by (cases "type p") (simp_all add: scalePart_def Let_def)

















section \<open>normalizeModelData: the shape of the result\<close>

lemma boundsStep_Some: "\<exists>b. boundsStep acc p = Some b"
  by (cases acc) (simp_all add: boundsStep_def split: prod.splits)

lemma computeBounds_Some:
  assumes "ps \<noteq> []"
  shows "\<exists>b. computeBounds ps = Some b"
proof -
  from assms obtain qs q where "ps = qs @ [q]"
    by (metis append_butlast_last_id)
  then show ?thesis
    using boundsStep_Some [of "foldl boundsStep None qs" q] by (simp add: computeBounds_def)
qed

lemma maxDimOf_nonzero: "maxDimOf b \<noteq> 0"
  by (simp add: maxDimOf_def orOne_def Let_def max_def)

lemma normalize_nonempty:
  assumes "parts m = Some ps" "ps \<noteq> []"
  shows "\<exists>b. computeBounds ps = Some b \<and>
           normalizeModelData m = m\<lparr>parts := Some (map (scalePart (8 / maxDimOf b)) ps)\<rparr>"
proof -
  from computeBounds_Some [OF assms(2)] obtain b where b: "computeBounds ps = Some b" ..
  then show ?thesis
    by (simp add: normalizeModelData_def assms maxDimOf_nonzero Let_def)
qed






lemmas normalize_eval =
  computeBounds_def boundsStep_def partSize_def scaleOr1_def argOr1_def orOne_def maxDimOf_def
  scalePart_def mulArg_def Let_def


lemma tableModel_maxDim: "computedMaxDim tableModel = Some 4"
  by (simp add: computedMaxDim_def tableModel_def tableTop_def tableLeg_def tableKnob_def
      normalize_eval)



section \<open>The bounding box after normalizeModelData\<close>




text \<open>
  The same happens where a size is missing: the bounding box takes the radius 1 for a
  sphere without \<open>args\<close>, and the rescaling has nothing to multiply.
\<close>

lemma bareSphereModel_normalized:
  "computedMaxDim bareSphereModel = Some 2 \<and>
   normalizeModelData bareSphereModel =
     \<lparr>name = ''Ball'', parts = Some [tableKnob\<lparr>position := (12, 0, 0), args := Some []\<rparr>]\<rparr> \<and>
   computedMaxDim (normalizeModelData bareSphereModel) = Some 2"
  by (simp add: bareSphereModel_def tableKnob_def normalizeModelData_def computedMaxDim_def
      normalize_eval)



section \<open>A second normalizeModelData\<close>




section \<open>What normalizeModelData changes in a part\<close>

text \<open>
  C7. When \<open>normalizeModelData\<close> rescales (the model has a part, \<open>d\<close> is its computed
  maximum dimension), the result has the same name and as many parts, and part \<open>i\<close>
  keeps its id, kind, rotation, colour and description; its position is multiplied by
  \<open>8 / d\<close>; of its \<open>args\<close> the first 0 (box), 1 (sphere, icosahedron), 3 (cylinder,
  cone) or 2 (torus) entries are multiplied and the others are as they were; its
  \<open>scale\<close> is multiplied for a box and as it was for every other kind. An absent
  \<open>args\<close> counts as \<open>[]\<close>, an absent \<open>scale\<close> as \<open>[1, 1, 1]\<close>.
\<close>

theorem normalize_per_kind:
  assumes "parts m = Some ps" and "computedMaxDim m = Some d" and "i < length ps"
  shows "\<exists>qs. normalizeModelData m = m\<lparr>parts := Some qs\<rparr> \<and> length qs = length ps \<and>
           part_id (qs ! i) = part_id (ps ! i) \<and> type (qs ! i) = type (ps ! i) \<and>
           rotation (qs ! i) = rotation (ps ! i) \<and> color (qs ! i) = color (ps ! i) \<and>
           description (qs ! i) = description (ps ! i) \<and>
           position (qs ! i) = scaleVec (8 / d) (position (ps ! i)) \<and>
           args (qs ! i) =
             Some (mulPrefix (scaledArgCount (type (ps ! i))) (8 / d) (argsOrEmpty (ps ! i))) \<and>
           scale (qs ! i) =
             Some (if type (ps ! i) = BOX then scaleVec (8 / d) (scaleOrUnit (ps ! i))
                   else scaleOrUnit (ps ! i))"
proof -
  from assms have ne: "ps \<noteq> []" by auto
  from normalize_nonempty [OF assms(1) ne] obtain b where b: "computeBounds ps = Some b"
    and n: "normalizeModelData m = m\<lparr>parts := Some (map (scalePart (8 / maxDimOf b)) ps)\<rparr>"
    by blast
  from assms(1,2) b ne have d: "maxDimOf b = d"
    by (simp add: computedMaxDim_def)
  let ?qs = "map (scalePart (8 / d)) ps"
  have c: "scaledArgCount (type p) =
      (case type p of BOX \<Rightarrow> 0 | SPHERE \<Rightarrow> 1 | ICOSAHEDRON \<Rightarrow> 1
                      | CYLINDER \<Rightarrow> 3 | CONE \<Rightarrow> 3 | TORUS \<Rightarrow> 2)" for p
    by (simp add: scaledArgCount_def)
  from n d have "normalizeModelData m = m\<lparr>parts := Some ?qs\<rparr>" by simp
  moreover have "length ?qs = length ps" by simp
  moreover from assms(3) have "?qs ! i = scalePart (8 / d) (ps ! i)" by simp
  ultimately show ?thesis
    using other_scalePart [of "8 / d" "ps ! i"]
    by (intro exI [of _ ?qs])
       (simp add: type_scalePart position_scalePart args_scalePart scale_scalePart c)
qed

text \<open>The leg of the table: radii and height doubled, the segment count 32 kept.\<close>

theorem normalize_per_kind_witness:
  "\<exists>qs. normalizeModelData tableModel = tableModel\<lparr>parts := Some qs\<rparr> \<and> length qs = 3 \<and>
         type (qs ! 1) = CYLINDER \<and> rotation (qs ! 1) = (0, 0, 0) \<and>
         position (qs ! 1) = (2, 2, 0) \<and>
         args (qs ! 1) = Some [1 / 2, 1 / 2, 4, 32] \<and> scale (qs ! 1) = Some (1, 1, 1)"
proof -
  have p: "parts tableModel = Some [tableTop, tableLeg, tableKnob]"
    by (simp add: tableModel_def)
  have i: "1 < length [tableTop, tableLeg, tableKnob]"
    by simp
  from normalize_per_kind [OF p tableModel_maxDim i] show ?thesis
    by (auto simp: tableLeg_def scaleVec_def mulPrefix_def scaledArgCount_def
        argsOrEmpty_def scaleOrUnit_def numeral_3_eq_3)
qed

section \<open>Degenerate models\<close>

text \<open>
  C8. A model without \<open>parts\<close> or with an empty list of parts is returned unchanged.
  The \<open>maxDim\<close> of a bounding box is never 0, since every span is
  \<open>max - min || 1\<close>: no model has a computed maximum dimension of 0, and the divisor
  of \<open>8 / maxDim\<close> is never 0.
\<close>

theorem normalize_degenerate_safe:
  "normalizeModelData (m\<lparr>parts := None\<rparr>) = m\<lparr>parts := None\<rparr> \<and>
   normalizeModelData (m\<lparr>parts := Some []\<rparr>) = m\<lparr>parts := Some []\<rparr> \<and>
   maxDimOf b \<noteq> 0 \<and> computedMaxDim m \<noteq> Some 0"
  by (auto simp: normalizeModelData_def maxDimOf_nonzero computedMaxDim_def split: option.splits)

text \<open>A model with no parts, and the table, whose maximum dimension is 4.\<close>

theorem normalize_degenerate_safe_witness:
  "normalizeModelData \<lparr>name = ''Nothing'', parts = Some []\<rparr>
     = \<lparr>name = ''Nothing'', parts = Some []\<rparr> \<and>
   computedMaxDim tableModel \<noteq> Some 0"
  using normalize_degenerate_safe [of "\<lparr>name = ''Nothing'', parts = Some []\<rparr>"]
    normalize_degenerate_safe [of tableModel]
  by simp

text \<open>
  The spans themselves can be 0, with negative sizes only: then \<open>maxDim\<close> is 1 and
  the model is multiplied by 8.
\<close>

lemma flatModel_rescaled:
  "map_option (\<lambda>b. (maxX b - minX b, maxY b - minY b, maxZ b - minZ b))
     (computeBounds (the (parts flatModel))) = Some (0, 0, 0) \<and>
   computedMaxDim flatModel = Some 1 \<and>
   normalizeModelData flatModel =
     \<lparr>name = ''Flat'',
      parts = Some [tableTop\<lparr>position := (0, 0, 0), scale := Some (- 16, - 16, - 16)\<rparr>,
                    tableTop\<lparr>position := (16, 16, 16), scale := Some (- 16, - 16, - 16)\<rparr>]\<rparr>"
  by (simp add: flatModel_def tableTop_def normalizeModelData_def computedMaxDim_def
      normalize_eval)

section \<open>The build speed\<close>

lemma floor_speed:
  assumes "0 < n"
  shows "\<lfloor>min (500::real) (2000 / real n)\<rfloor> = min 500 (2000 div int n)"
proof -
  have "\<lfloor>(2000::real) / real n\<rfloor> = 2000 div int n"
    using floor_divide_of_int_eq [of 2000 "int n", where ?'a = real] by simp
  moreover have "\<lfloor>min (500::real) x\<rfloor> = min 500 \<lfloor>x\<rfloor>" for x
    by (simp add: min_def floor_less_iff le_floor_iff)
  ultimately show ?thesis by simp
qed

text \<open>
  C4, amended. With \<open>partCount = max(1, parts.length)\<close>, the build speed that a
  successful generation sets is the integer part of the speed of the formula: 100 when
  \<open>partCount\<close> is 1, and otherwise the floor of \<open>min(500, 2000 / partCount)\<close>, which
  is \<open>min(500, 2000 div partCount)\<close>.
\<close>

theorem buildingSpeed_formula:
  assumes "parts g = Some ps"
  shows "deriveBuildingSpeed g =
           Some \<lfloor>if max 1 (length ps) = 1 then 100
                  else min (500::real) (2000 / real (max 1 (length ps)))\<rfloor> \<and>
         deriveBuildingSpeed g =
           Some (if max 1 (length ps) = 1 then 100
                 else min 500 (2000 div int (max 1 (length ps))))"
proof (cases "length ps = 0")
  case True
  with assms show ?thesis by (simp add: deriveBuildingSpeed_def)
next
  case False
  then have pos: "0 < length ps" by simp
  then have one: "Suc 0 \<le> length ps" by (simp add: Suc_le_eq)
  from floor_speed [OF pos] False one assms show ?thesis
    by (simp add: deriveBuildingSpeed_def Let_def max_def)
qed

text \<open>0, 1, 4, 20, 40 and 7 parts give 100, 100, 500, 100, 50 and 285.\<close>

theorem buildingSpeed_formula_witness:
  "deriveBuildingSpeed (partsOfLength 0) = Some 100 \<and>
   deriveBuildingSpeed (partsOfLength 1) = Some 100 \<and>
   deriveBuildingSpeed (partsOfLength 4) = Some 500 \<and>
   deriveBuildingSpeed (partsOfLength 20) = Some 100 \<and>
   deriveBuildingSpeed (partsOfLength 40) = Some 50 \<and>
   deriveBuildingSpeed (partsOfLength 7) = Some 285"
  using buildingSpeed_formula [of "partsOfLength 0" "replicate 0 tableKnob"]
    buildingSpeed_formula [of "partsOfLength 1" "replicate 1 tableKnob"]
    buildingSpeed_formula [of "partsOfLength 4" "replicate 4 tableKnob"]
    buildingSpeed_formula [of "partsOfLength 20" "replicate 20 tableKnob"]
    buildingSpeed_formula [of "partsOfLength 40" "replicate 40 tableKnob"]
    buildingSpeed_formula [of "partsOfLength 7" "replicate 7 tableKnob"]
  by (simp add: partsOfLength_def)

text \<open>
  C4 as stated fails for 7 parts: the speed set is 285, and \<open>min(500, 2000 / 7)\<close> is
  not an integer.
\<close>

theorem buildingSpeed_seven_parts:
  "deriveBuildingSpeed (partsOfLength 7) = Some 285 \<and>
   map_option real_of_int (deriveBuildingSpeed (partsOfLength 7)) \<noteq> Some (min 500 (2000 / 7))"
  by (simp add: deriveBuildingSpeed_def partsOfLength_def Let_def)

section \<open>The camera on a change of view\<close>

lemma viewButtonClicked_runs:
  assumes "wellAllocated s"
  shows "viewButtonClicked c viewMode now s =
           (handleViewChange viewMode now (fst s),
            \<lparr>camera = cameraEffect c (viewState (handleViewChange viewMode now (fst s)))
                        (camera (snd s)),
             lastDeps = Some (nextObjectId (fst s), c),
             effectRuns = Suc (effectRuns (snd s))\<rparr>)"
  using assms
  by (auto simp: viewButtonClicked_def renderCameraController_def handleViewChange_def
      wellAllocated_def Let_def split: option.splits)

lemma viewButtonClicked_wellAllocated:
  assumes "wellAllocated s"
  shows "wellAllocated (viewButtonClicked c viewMode now s)"
  unfolding viewButtonClicked_runs [OF assms]
  by (simp add: wellAllocated_def handleViewChange_def)

lemma cameraEffect_True:
  "cameraEffect True vs cam = \<lparr>cameraPosition = cameraFor (mode vs), controlsTarget = (0, 0, 0)\<rparr>"
  by (simp add: cameraEffect_def cameraFor_def Let_def)

text \<open>
  C9, amended. With the orbit controls in place, every click on a view button runs the
  camera effect once more, whatever the mode and the time stamp were before, so two clicks
  on the same mode run it twice, also within one millisecond; the effect sets the look-at
  target to the origin and the camera to the offset of the mode: TOP and BOTTOM on the Y
  axis at +15 and -15, FRONT on the Z axis at +15, SIDE on the X axis at +15, each at
  distance 15, and ISO (as every other mode string) at (10, 10, 10), which is at distance
  \<open>sqrt 300\<close>. Without the controls the effect leaves the camera as it is.
\<close>

theorem camera_recompute:
  assumes "wellAllocated s"
  shows "(let s1 = viewButtonClicked True viewMode now s in
            wellAllocated s1 \<and>
            mode (viewState (fst s1)) = viewMode \<and> tstamp (viewState (fst s1)) = now \<and>
            effectRuns (snd s1) = effectRuns (snd s) + 1 \<and>
            cameraPosition (camera (snd s1)) = cameraFor viewMode \<and>
            controlsTarget (camera (snd s1)) = (0, 0, 0)) \<and>
         effectRuns (snd (viewButtonClicked True viewMode now2
                            (viewButtonClicked True viewMode now s)))
           = effectRuns (snd s) + 2 \<and>
         cameraFor ''TOP'' = (0, 15, 0) \<and> cameraFor ''BOTTOM'' = (0, - 15, 0) \<and>
         cameraFor ''FRONT'' = (0, 0, 15) \<and> cameraFor ''SIDE'' = (15, 0, 0) \<and>
         cameraFor ''ISO'' = (10, 10, 10) \<and>
         distanceToOrigin (cameraFor ''TOP'') = 15 \<and>
         distanceToOrigin (cameraFor ''BOTTOM'') = 15 \<and>
         distanceToOrigin (cameraFor ''FRONT'') = 15 \<and>
         distanceToOrigin (cameraFor ''SIDE'') = 15 \<and>
         distanceToOrigin (cameraFor ''ISO'') = sqrt 300 \<and>
         camera (snd (viewButtonClicked False viewMode now s)) = camera (snd s)"
proof -
  note w1 = viewButtonClicked_wellAllocated [OF assms, of True viewMode now]
  have a: "viewButtonClicked True viewMode now2 (viewButtonClicked True viewMode now s)
      = (handleViewChange viewMode now2 (fst (viewButtonClicked True viewMode now s)),
         \<lparr>camera = cameraEffect True
              (viewState (handleViewChange viewMode now2
                 (fst (viewButtonClicked True viewMode now s))))
              (camera (snd (viewButtonClicked True viewMode now s))),
          lastDeps = Some (nextObjectId (fst (viewButtonClicked True viewMode now s)), True),
          effectRuns = Suc (effectRuns (snd (viewButtonClicked True viewMode now s)))\<rparr>)"
    by (rule viewButtonClicked_runs [OF w1])
  have b: "effectRuns (snd (viewButtonClicked True viewMode now s)) = Suc (effectRuns (snd s))"
    by (simp add: viewButtonClicked_runs [OF assms])
  have t: "cameraFor ''TOP'' = (0, 15, 0)" "cameraFor ''BOTTOM'' = (0, - 15, 0)"
    "cameraFor ''FRONT'' = (0, 0, 15)" "cameraFor ''SIDE'' = (15, 0, 0)"
    "cameraFor ''ISO'' = (10, 10, 10)"
    by (simp_all add: cameraFor_def cameraEffect_def Let_def)
  have s15: "sqrt 225 = 15"
    using real_sqrt_abs [of 15] by simp
  have d: "distanceToOrigin (cameraFor ''TOP'') = 15"
    "distanceToOrigin (cameraFor ''BOTTOM'') = 15"
    "distanceToOrigin (cameraFor ''FRONT'') = 15"
    "distanceToOrigin (cameraFor ''SIDE'') = 15"
    "distanceToOrigin (cameraFor ''ISO'') = sqrt 300"
    by (simp_all add: t distanceToOrigin_def s15)
  have c: "let s1 = viewButtonClicked True viewMode now s in
            wellAllocated s1 \<and>
            mode (viewState (fst s1)) = viewMode \<and> tstamp (viewState (fst s1)) = now \<and>
            effectRuns (snd s1) = effectRuns (snd s) + 1 \<and>
            cameraPosition (camera (snd s1)) = cameraFor viewMode \<and>
            controlsTarget (camera (snd s1)) = (0, 0, 0)"
    using w1 by (simp add: Let_def viewButtonClicked_runs [OF assms] cameraEffect_True
        handleViewChange_def)
  have e: "effectRuns (snd (viewButtonClicked True viewMode now2
                            (viewButtonClicked True viewMode now s))) = effectRuns (snd s) + 2"
    unfolding a by (simp add: b)
  have f: "camera (snd (viewButtonClicked False viewMode now s)) = camera (snd s)"
    by (simp add: viewButtonClicked_runs [OF assms] cameraEffect_def)
  from c e t d f show ?thesis by simp
qed

text \<open>Two clicks on TOP with the same time stamp, after the first render.\<close>

lemma initial_wellAllocated: "wellAllocated (initialApp, mountedCamera)"
  by (simp add: wellAllocated_def initialApp_def mountedCamera_def renderCameraController_def)

theorem camera_recompute_witness:
  "wellAllocated (initialApp, mountedCamera) \<and>
   effectRuns mountedCamera = 1 \<and>
   effectRuns (snd (viewButtonClicked True ''TOP'' 2000
                      (viewButtonClicked True ''TOP'' 2000 (initialApp, mountedCamera)))) = 3 \<and>
   cameraPosition (camera (snd (viewButtonClicked True ''TOP'' 2000 (initialApp, mountedCamera))))
     = (0, 15, 0)"
  using camera_recompute [OF initial_wellAllocated, of "''TOP''" 2000 2000] initial_wellAllocated
  by (simp add: Let_def mountedCamera_def renderCameraController_def)

text \<open>
  C9 as stated fails for ISO: its offset is not at the distance of the other four.
\<close>

theorem iso_distance_differs:
  "distanceToOrigin (cameraFor ''ISO'') \<noteq> distanceToOrigin (cameraFor ''TOP'')"
proof -
  have t: "cameraFor ''TOP'' = (0, 15, 0)" "cameraFor ''ISO'' = (10, 10, 10)"
    by (simp_all add: cameraFor_def cameraEffect_def Let_def)
  have "sqrt 300 \<noteq> 15"
  proof
    assume "sqrt 300 = 15"
    then have "(sqrt 300)\<^sup>2 = 15\<^sup>2" by simp
    then show False by simp
  qed
  moreover have "sqrt 225 = 15"
    using real_sqrt_abs [of 15] by simp
  ultimately show ?thesis
    by (simp add: t distanceToOrigin_def)
qed

section \<open>The reveal of the parts\<close>

lemma delaysElapsed_count:
  assumes "model v = Some m" and "parts m = Some ps" and "visiblePartsCount v \<le> length ps"
  shows "delaysElapsed n v =
           Some (v\<lparr>visiblePartsCount := min (visiblePartsCount v + n) (length ps)\<rparr>)"
  using assms
proof (induction n arbitrary: v)
  case 0
  then show ?case by (simp add: min_def)
next
  case (Suc n)
  show ?case
  proof (cases "visiblePartsCount v < length ps")
    case True
    let ?w = "v\<lparr>visiblePartsCount := visiblePartsCount v + 1\<rparr>"
    from True Suc.prems have step: "delayElapsed v = Some ?w"
      by (simp add: delayElapsed_def timerPending_def)
    from True Suc.prems have "delaysElapsed n ?w =
        Some (?w\<lparr>visiblePartsCount := min (visiblePartsCount ?w + n) (length ps)\<rparr>)"
      by (intro Suc.IH) simp_all
    with step show ?thesis by simp
  next
    case False
    with Suc.prems have full: "visiblePartsCount v = length ps" by simp
    with Suc.prems have step: "delayElapsed v = Some v"
      by (simp add: delayElapsed_def timerPending_def)
    from Suc.IH [OF Suc.prems] step full show ?thesis by simp
  qed
qed

text \<open>
  C3. When a model with parts \<open>ps\<close> is assigned, the count of visible parts is 0. After
  \<open>n\<close> delays of the build speed the count is \<open>min n (length ps)\<close>: each delay adds
  exactly 1 while the count is below \<open>length ps\<close>, and nothing after that. Part \<open>i\<close>
  is visible iff \<open>i\<close> is below the count, so at every moment a visible part has all
  parts of lower index visible, and after \<open>length ps\<close> delays every part is visible.
\<close>

theorem reveal_in_order:
  assumes "parts m = Some ps"
  shows "visiblePartsCount (modelAssigned (Some m) v) = 0 \<and>
         (\<forall>n. \<exists>vn. delaysElapsed n (modelAssigned (Some m) v) = Some vn \<and>
                 visiblePartsCount vn = min n (length ps) \<and>
                 (\<forall>i. isVisible vn i \<longleftrightarrow> i < min n (length ps)) \<and>
                 (\<forall>i j. isVisible vn i \<longrightarrow> j < i \<longrightarrow> isVisible vn j) \<and>
                 (n < length ps \<longrightarrow>
                    (\<exists>vn'. delayElapsed vn = Some vn' \<and>
                           visiblePartsCount vn' = visiblePartsCount vn + 1)) \<and>
                 (length ps \<le> n \<longrightarrow> delayElapsed vn = Some vn)) \<and>
         (\<exists>vN. delaysElapsed (length ps) (modelAssigned (Some m) v) = Some vN \<and>
                (\<forall>i < length ps. isVisible vN i))"
proof -
  let ?v0 = "modelAssigned (Some m) v"
  have m0: "model ?v0 = Some m" and c0: "visiblePartsCount ?v0 = 0"
    by (simp_all add: modelAssigned_def)
  have run: "delaysElapsed n ?v0 = Some (?v0\<lparr>visiblePartsCount := min n (length ps)\<rparr>)" for n
    using delaysElapsed_count [OF m0 assms, of n] c0 by simp
  have each: "\<exists>vn. delaysElapsed n ?v0 = Some vn \<and>
                 visiblePartsCount vn = min n (length ps) \<and>
                 (\<forall>i. isVisible vn i \<longleftrightarrow> i < min n (length ps)) \<and>
                 (\<forall>i j. isVisible vn i \<longrightarrow> j < i \<longrightarrow> isVisible vn j) \<and>
                 (n < length ps \<longrightarrow>
                    (\<exists>vn'. delayElapsed vn = Some vn' \<and>
                           visiblePartsCount vn' = visiblePartsCount vn + 1)) \<and>
                 (length ps \<le> n \<longrightarrow> delayElapsed vn = Some vn)" for n
    by (rule exI [of _ "?v0\<lparr>visiblePartsCount := min n (length ps)\<rparr>"])
       (auto simp: run isVisible_def delayElapsed_def timerPending_def m0 assms)
  have all: "\<exists>vN. delaysElapsed (length ps) ?v0 = Some vN \<and> (\<forall>i < length ps. isVisible vN i)"
    by (simp add: run isVisible_def)
  from c0 each all show ?thesis by blast
qed

text \<open>The table: one part after one delay, all three after three.\<close>

theorem reveal_in_order_witness:
  "\<exists>v1 v3. delaysElapsed 1 (modelAssigned (Some tableModel) idleViewer) = Some v1 \<and>
            isVisible v1 0 \<and> \<not> isVisible v1 1 \<and>
            delaysElapsed 3 (modelAssigned (Some tableModel) idleViewer) = Some v3 \<and>
            visiblePartsCount v3 = 3 \<and> isVisible v3 0 \<and> isVisible v3 1 \<and> isVisible v3 2"
proof -
  have p: "parts tableModel = Some [tableTop, tableLeg, tableKnob]"
    by (simp add: tableModel_def)
  from reveal_in_order [OF p, of idleViewer]
  have a: "\<forall>n. \<exists>vn. delaysElapsed n (modelAssigned (Some tableModel) idleViewer) = Some vn \<and>
                 visiblePartsCount vn = min n (length [tableTop, tableLeg, tableKnob])"
    by blast
  from a [rule_format, of 1] a [rule_format, of 3] show ?thesis
    by (auto simp: isVisible_def)
qed

section \<open>cleanAndParseJSON: the clean-up of trailing commas\<close>

lemma dropTrailingCommas_spaces:
  assumes "list_all isSpace ws"
  shows "dropTrailingCommas (ws @ cs) = ws @ dropTrailingCommas cs"
  using assms
proof (induction ws)
  case Nil
  show ?case by simp
next
  case (Cons w ws)
  then have "isSpace w" by simp
  then have "w \<noteq> CHR '',''" by (auto simp: isSpace_def)
  with Cons show ?case by simp
qed

lemma commaTail_Some:
  assumes "commaTail cs = Some (g, rest)"
  shows "\<exists>ws b. g = ws @ [b] \<and> cs = ws @ b # rest \<and> list_all isSpace ws \<and>
                (b = CHR ''}'' \<or> b = CHR '']'') \<and> dropWhile isSpace cs = b # rest"
proof -
  from assms obtain b where d: "dropWhile isSpace cs = b # rest"
    and b: "b = CHR ''}'' \<or> b = CHR '']''" and g: "g = takeWhile isSpace cs @ [b]"
    by (auto simp: commaTail_def split: list.splits if_splits)
  have "cs = takeWhile isSpace cs @ dropWhile isSpace cs" by simp
  with d have "cs = takeWhile isSpace cs @ b # rest" by simp
  moreover have "list_all isSpace (takeWhile isSpace cs)"
    by (simp add: list_all_iff) (meson set_takeWhileD)
  ultimately show ?thesis using b g d by blast
qed

lemma commaTail_None:
  assumes "commaTail cs = None"
  shows "\<not> (case dropWhile isSpace cs of [] \<Rightarrow> False
             | b # rest \<Rightarrow> b = CHR ''}'' \<or> b = CHR '']'')"
proof (cases "dropWhile isSpace cs")
  case Nil
  show ?thesis unfolding Nil by simp
next
  case (Cons b rest)
  from assms show ?thesis unfolding commaTail_def Cons
    by (simp split: if_splits)
qed

lemma stripTrailingCommas_eq: "stripTrailingCommas cs = dropTrailingCommas cs"
proof (induction cs rule: stripTrailingCommas.induct)
  case 1
  show ?case by simp
next
  case (2 c cs)
  show ?case
  proof (cases "c = CHR '',''")
    case False
    with 2 show ?thesis by simp
  next
    case True
    show ?thesis
    proof (cases "commaTail cs")
      case None
      from commaTail_None [OF None] True None 2 show ?thesis by simp
    next
      case (Some gr)
      obtain g rest where gr: "gr = (g, rest)" by (cases gr)
      from commaTail_Some [OF Some [unfolded gr]] obtain ws b where
        g: "g = ws @ [b]" and cs: "cs = ws @ b # rest" and ws: "list_all isSpace ws"
        and b: "b = CHR ''}'' \<or> b = CHR '']''" and d: "dropWhile isSpace cs = b # rest"
        by blast
      from b have bc: "b \<noteq> CHR '',''" by auto
      have "dropTrailingCommas cs = ws @ dropTrailingCommas (b # rest)"
        unfolding cs by (rule dropTrailingCommas_spaces [OF ws])
      also have "\<dots> = ws @ b # dropTrailingCommas rest"
        using bc by simp
      finally have r: "dropTrailingCommas cs = g @ dropTrailingCommas rest"
        by (simp add: g)
      from 2(2) [OF True Some [unfolded gr] refl] have ih: "stripTrailingCommas rest = dropTrailingCommas rest" .
      from True Some gr d b r ih show ?thesis by simp
    qed
  qed
qed

section \<open>cleanAndParseJSON: what the code block expression matches\<close>

lemma takeWhile_spaces: "list_all isSpace (takeWhile isSpace cs)"
  by (simp add: list_all_iff) (meson set_takeWhileD)

lemma closesFence_split:
  assumes "closesFence cs"
  shows "\<exists>ws post. cs = ws @ ''```'' @ post \<and> list_all isSpace ws"
proof -
  let ?r = "dropWhile isSpace cs"
  from assms have t: "take 3 ?r = ''```''"
    by (simp add: closesFence_def skipSpace_def)
  have "?r = take 3 ?r @ drop 3 ?r" by simp
  with t have "?r = ''```'' @ drop 3 ?r" by metis
  moreover have "cs = takeWhile isSpace cs @ ?r" by simp
  ultimately have "cs = takeWhile isSpace cs @ ''```'' @ drop 3 ?r" by metis
  with takeWhile_spaces show ?thesis by blast
qed

lemma lazyObject_split:
  assumes "lazyObject cs = Some body"
  shows "\<exists>ws post. cs = body @ ws @ ''```'' @ post \<and> list_all isSpace ws \<and>
                   body \<noteq> [] \<and> last body = CHR ''}''"
  using assms
proof (induction cs arbitrary: body)
  case Nil
  then show ?case by simp
next
  case (Cons c cs)
  show ?case
  proof (cases "c = CHR ''}'' \<and> closesFence cs")
    case True
    with Cons.prems have b: "body = [c]" by simp
    from True closesFence_split obtain ws post where
      "cs = ws @ ''```'' @ post" "list_all isSpace ws" by blast
    with b True show ?thesis by auto
  next
    case False
    with Cons.prems obtain body' where l: "lazyObject cs = Some body'" and b: "body = c # body'"
      by auto
    from Cons.IH [OF l] obtain ws post where
      "cs = body' @ ws @ ''```'' @ post" "list_all isSpace ws" "body' \<noteq> []"
      "last body' = CHR ''}''" by blast
    with b show ?thesis by auto
  qed
qed

lemma matchFenceAt_split:
  assumes "matchFenceAt cs = Some g"
  shows "\<exists>tag ws1 ws2 post.
           cs = ''```'' @ tag @ ws1 @ g @ ws2 @ ''```'' @ post \<and>
           (tag = [] \<or> isJsonTag tag) \<and> list_all isSpace ws1 \<and> list_all isSpace ws2 \<and>
           g \<noteq> [] \<and> hd g = CHR ''{'' \<and> last g = CHR ''}''"
proof -
  from assms have t: "take 3 cs = ''```''"
    by (simp add: matchFenceAt_def split: if_splits)
  let ?a = "drop 3 cs"
  let ?b = "skipJsonTag ?a"
  let ?c = "skipSpace ?b"
  have cs: "cs = ''```'' @ ?a"
    using append_take_drop_id [of 3 cs] t by metis
  obtain tag where a: "?a = tag @ ?b" and tag: "tag = [] \<or> isJsonTag tag"
  proof (cases "isJsonTag (take 4 ?a)")
    case True
    then have "?b = drop 4 ?a" by (simp only: skipJsonTag_def if_True)
    then have "?a = take 4 ?a @ ?b" by (simp only: append_take_drop_id)
    with True that show ?thesis by blast
  next
    case False
    then have "?b = ?a" by (simp add: skipJsonTag_def)
    with that [of "[]"] show ?thesis by simp
  qed
  have b: "?b = takeWhile isSpace ?b @ ?c"
    by (simp add: skipSpace_def)
  from assms t obtain rest body where c: "?c = CHR ''{'' # rest"
    and l: "lazyObject rest = Some body" and g: "g = CHR ''{'' # body"
    by (auto simp: matchFenceAt_def split: list.splits if_splits)
  from lazyObject_split [OF l] obtain ws2 post where
    r: "rest = body @ ws2 @ ''```'' @ post" and ws2: "list_all isSpace ws2"
    and ne: "body \<noteq> []" and la: "last body = CHR ''}''" by blast
  have "cs = ''```'' @ tag @ takeWhile isSpace ?b @ g @ ws2 @ ''```'' @ post"
    using cs a b c r g by (metis append_Cons)
  moreover have "g \<noteq> []" "hd g = CHR ''{''" "last g = CHR ''}''"
    using g ne la by simp_all
  ultimately show ?thesis
    using tag ws2 takeWhile_spaces by blast
qed

lemma codeBlockMatch_split:
  assumes "codeBlockMatch raw = Some g"
  shows "\<exists>pre tag ws1 ws2 post.
           raw = pre @ ''```'' @ tag @ ws1 @ g @ ws2 @ ''```'' @ post \<and>
           (tag = [] \<or> isJsonTag tag) \<and> list_all isSpace ws1 \<and> list_all isSpace ws2 \<and>
           g \<noteq> [] \<and> hd g = CHR ''{'' \<and> last g = CHR ''}''"
  using assms
proof (induction raw)
  case Nil
  then show ?case by simp
next
  case (Cons c cs)
  show ?case
  proof (cases "matchFenceAt (c # cs)")
    case (Some g')
    with Cons.prems have "g' = g" by simp
    with Some matchFenceAt_split [of "c # cs" g] obtain tag ws1 ws2 post where
      "c # cs = [] @ ''```'' @ tag @ ws1 @ g @ ws2 @ ''```'' @ post"
      "tag = [] \<or> isJsonTag tag" "list_all isSpace ws1" "list_all isSpace ws2"
      "g \<noteq> []" "hd g = CHR ''{''" "last g = CHR ''}''"
      by auto
    then show ?thesis by blast
  next
    case None
    with Cons.prems have "codeBlockMatch cs = Some g" by simp
    from Cons.IH [OF this] obtain pre tag ws1 ws2 post where
      "cs = pre @ ''```'' @ tag @ ws1 @ g @ ws2 @ ''```'' @ post"
      "tag = [] \<or> isJsonTag tag" "list_all isSpace ws1" "list_all isSpace ws2"
      "g \<noteq> []" "hd g = CHR ''{''" "last g = CHR ''}''"
      by blast
    then have "c # cs = (c # pre) @ ''```'' @ tag @ ws1 @ g @ ws2 @ ''```'' @ post"
      by simp
    with \<open>tag = [] \<or> isJsonTag tag\<close> \<open>list_all isSpace ws1\<close> \<open>list_all isSpace ws2\<close>
      \<open>g \<noteq> []\<close> \<open>hd g = CHR ''{''\<close> \<open>last g = CHR ''}''\<close>
    show ?thesis by blast
  qed
qed

lemma codeBlockMatch_needs_brace:
  assumes "CHR ''{'' \<notin> set raw"
  shows "codeBlockMatch raw = None"
proof (cases "codeBlockMatch raw")
  case None
  then show ?thesis .
next
  case (Some g)
  from codeBlockMatch_split [OF Some] obtain pre tag ws1 ws2 post where
    r: "raw = pre @ ''```'' @ tag @ ws1 @ g @ ws2 @ ''```'' @ post"
    and g: "g \<noteq> []" "hd g = CHR ''{''" by blast
  from g have "CHR ''{'' \<in> set g" by (metis hd_in_set)
  with r assms show ?thesis by auto
qed

lemma indexOf_None: "indexOf ch cs = None \<longleftrightarrow> ch \<notin> set cs"
  by (induction cs) auto

lemma indexOf_Some:
  "indexOf ch cs = Some i \<longleftrightarrow> i < length cs \<and> cs ! i = ch \<and> (\<forall>k < i. cs ! k \<noteq> ch)"
proof (induction cs arbitrary: i)
  case Nil
  show ?case by simp
next
  case (Cons c cs)
  show ?case
  proof (cases "c = ch")
    case True
    then show ?thesis by (cases i) auto
  next
    case False
    show ?thesis
    proof (cases i)
      case 0
      with False show ?thesis by auto
    next
      case (Suc j)
      have "(\<forall>k < Suc j. (c # cs) ! k \<noteq> ch) \<longleftrightarrow> (\<forall>k < j. cs ! k \<noteq> ch)"
        using False by (auto simp: less_Suc_eq_0_disj)
      with False Suc Cons.IH [of j] show ?thesis by auto
    qed
  qed
qed

lemma lastIndexOf_None: "lastIndexOf ch cs = None \<longleftrightarrow> ch \<notin> set cs"
  by (induction cs) (auto split: option.splits)

lemma lastIndexOf_Some:
  "lastIndexOf ch cs = Some i \<longleftrightarrow>
     i < length cs \<and> cs ! i = ch \<and> (\<forall>k. i < k \<and> k < length cs \<longrightarrow> cs ! k \<noteq> ch)"
proof (induction cs arbitrary: i)
  case Nil
  show ?case by simp
next
  case (Cons c cs)
  show ?case
  proof (cases "lastIndexOf ch cs")
    case None
    then have n: "ch \<notin> set cs" by (simp add: lastIndexOf_None)
    then have no: "\<And>k. k < length cs \<Longrightarrow> cs ! k \<noteq> ch" by auto
    show ?thesis
    proof (cases i)
      case 0
      with None no show ?thesis by (auto simp: nth_Cons split: nat.splits)
    next
      case (Suc j)
      with None no show ?thesis by auto
    qed
  next
    case (Some l)
    with Cons.IH [of l] have l: "l < length cs" "cs ! l = ch"
      "\<And>k. l < k \<Longrightarrow> k < length cs \<Longrightarrow> cs ! k \<noteq> ch" by auto
    show ?thesis
    proof (cases i)
      case 0
      from l(1,2) have "\<not> (\<forall>k. 0 < k \<and> k < length (c # cs) \<longrightarrow> (c # cs) ! k \<noteq> ch)"
        by (auto intro!: exI [of _ "Suc l"])
      with 0 Some show ?thesis by auto
    next
      case (Suc j)
      have "(\<forall>k. Suc j < k \<and> k < length (c # cs) \<longrightarrow> (c # cs) ! k \<noteq> ch) \<longleftrightarrow>
            (\<forall>k. j < k \<and> k < length cs \<longrightarrow> cs ! k \<noteq> ch)"
        by (auto simp: nth_Cons split: nat.splits)
      with Suc Some Cons.IH [of j] show ?thesis by auto
    qed
  qed
qed


lemma dropWhile_space_close:
  assumes "CHR 0x60 \<notin> set r"
  shows "\<not> closesFence (r @ CHR ''}'' # rest)"
proof -
  have ns: "\<not> isSpace (CHR ''}'')" by (simp add: isSpace_def)
  show ?thesis
  proof (cases "\<forall>x \<in> set r. isSpace x")
    case True
    then have "dropWhile isSpace (r @ CHR ''}'' # rest) = CHR ''}'' # rest"
      using ns by (simp add: dropWhile_append)
    then show ?thesis by (simp add: closesFence_def skipSpace_def)
  next
    case False
    then have d: "dropWhile isSpace (r @ CHR ''}'' # rest) = dropWhile isSpace r @ CHR ''}'' # rest"
      by (auto simp: dropWhile_append)
    from False have ne: "dropWhile isSpace r \<noteq> []" by auto
    then obtain x xs where x: "dropWhile isSpace r = x # xs" by (cases "dropWhile isSpace r") auto
    then have "x \<in> set r" by (metis list.set_intros(1) set_dropWhileD)
    with assms have "x \<noteq> CHR 0x60" by auto
    with d x show ?thesis by (simp add: closesFence_def skipSpace_def)
  qed
qed

lemma closesFence_spaces:
  assumes "list_all isSpace ws"
  shows "closesFence (ws @ ''```'' @ post)"
proof -
  have "\<not> isSpace (CHR 0x60)" by (simp add: isSpace_def)
  with assms have "dropWhile isSpace (ws @ ''```'' @ post) = ''```'' @ post"
    by (simp add: dropWhile_append list_all_iff)
  then show ?thesis by (simp add: closesFence_def skipSpace_def)
qed

lemma lazyObject_complete:
  assumes "CHR 0x60 \<notin> set r" and "list_all isSpace ws"
  shows "lazyObject (r @ CHR ''}'' # ws @ ''```'' @ post) = Some (r @ [CHR ''}''])"
  using assms(1)
proof (induction r)
  case Nil
  from closesFence_spaces [OF assms(2)] show ?case by simp
next
  case (Cons c r)
  then have "CHR 0x60 \<notin> set r" by simp
  from dropWhile_space_close [OF this] Cons show ?case by simp
qed

lemma isJsonTag_length: "isJsonTag tag \<Longrightarrow> length tag = 4"
  by (auto simp: isJsonTag_def split: list.splits)

lemma skipJsonTag_tag:
  assumes "tag = [] \<or> isJsonTag tag" and "list_all isSpace ws"
  shows "skipSpace (skipJsonTag (tag @ ws @ CHR ''{'' # rest)) = CHR ''{'' # rest"
proof -
  have nb: "\<not> isSpace (CHR ''{'')" by (simp add: isSpace_def)
  from assms(2) have sp: "skipSpace (ws @ CHR ''{'' # rest) = CHR ''{'' # rest"
    using nb by (simp add: skipSpace_def dropWhile_append list_all_iff)
  from assms(1) show ?thesis
  proof
    assume t: "tag = []"
    have "\<not> isJsonTag (take 4 (ws @ CHR ''{'' # rest))"
    proof (cases ws)
      case Nil
      then show ?thesis by (auto simp: isJsonTag_def split: list.splits)
    next
      case (Cons w ws')
      with assms(2) have "isSpace w" by simp
      then have "w \<noteq> CHR ''j''" "w \<noteq> CHR ''J''" by (auto simp: isSpace_def)
      with Cons show ?thesis by (auto simp: isJsonTag_def split: list.splits)
    qed
    with t sp show ?thesis by (simp add: skipJsonTag_def)
  next
    assume t: "isJsonTag tag"
    then have "length tag = 4" by (rule isJsonTag_length)
    then have "take 4 (tag @ ws @ CHR ''{'' # rest) = tag"
      "drop 4 (tag @ ws @ CHR ''{'' # rest) = ws @ CHR ''{'' # rest" by simp_all
    with t sp show ?thesis by (simp add: skipJsonTag_def)
  qed
qed

lemma matchFenceAt_complete:
  assumes "tag = [] \<or> isJsonTag tag" and "list_all isSpace ws1" and "list_all isSpace ws2"
    and "CHR 0x60 \<notin> set body"
  shows "matchFenceAt (''```'' @ tag @ ws1 @ CHR ''{'' # body @ CHR ''}'' # ws2 @ ''```'' @ post)
           = Some (CHR ''{'' # body @ [CHR ''}''])"
proof -
  have "skipSpace (skipJsonTag (tag @ ws1 @ CHR ''{'' # body @ CHR ''}'' # ws2 @ ''```'' @ post))
          = CHR ''{'' # body @ CHR ''}'' # ws2 @ ''```'' @ post"
    by (rule skipJsonTag_tag [OF assms(1,2)])
  moreover have "lazyObject (body @ CHR ''}'' # ws2 @ ''```'' @ post) = Some (body @ [CHR ''}''])"
    by (rule lazyObject_complete [OF assms(4,3)])
  ultimately show ?thesis
    by (simp add: matchFenceAt_def)
qed

lemma codeBlockMatch_complete:
  assumes "CHR 0x60 \<notin> set pre" and "tag = [] \<or> isJsonTag tag"
    and "list_all isSpace ws1" and "list_all isSpace ws2" and "CHR 0x60 \<notin> set body"
  shows "codeBlockMatch
           (pre @ ''```'' @ tag @ ws1 @ CHR ''{'' # body @ CHR ''}'' # ws2 @ ''```'' @ post)
           = Some (CHR ''{'' # body @ [CHR ''}''])"
  using assms(1)
proof (induction pre)
  case Nil
  from matchFenceAt_complete [OF assms(2-5), of post] show ?case by simp
next
  case (Cons c pre)
  then have "c \<noteq> CHR 0x60" by auto
  then have "matchFenceAt (c # pre @ ''```'' @ tag @ ws1 @ CHR ''{'' # body @ CHR ''}'' # ws2
                @ ''```'' @ post) = None"
    by (simp add: matchFenceAt_def)
  with Cons show ?case by simp
qed

section \<open>cleanAndParseJSON: the order of the extraction\<close>

lemma extractText_fenced:
  assumes "codeBlockMatch raw = Some g"
  shows "extractText raw = g"
  using assms by (simp add: extractText_def)

lemma extractText_braces:
  assumes "codeBlockMatch raw = None" and "indexOf (CHR ''{'') raw = Some i"
    and "lastIndexOf (CHR ''}'') raw = Some j" and "i < j"
  shows "extractText raw = drop i (take (j + 1) raw)"
  using assms by (simp add: extractText_def substring_def min_def max_def)

lemma extractText_whole:
  assumes "codeBlockMatch raw = None"
    and "\<nexists>i j. indexOf (CHR ''{'') raw = Some i \<and> lastIndexOf (CHR ''}'') raw = Some j \<and> i < j"
  shows "extractText raw = raw"
  using assms by (auto simp: extractText_def split: option.splits)

lemma cleanAndParseJSON_Some:
  "P (cleanText raw) = Some v \<Longrightarrow> cleanAndParseJSON P raw = Inr v"
  by (simp add: cleanAndParseJSON_def)

lemma cleanAndParseJSON_None:
  "P (cleanText raw) = None \<Longrightarrow> cleanAndParseJSON P raw = Inl modelInterpretationError"
  by (simp add: cleanAndParseJSON_def modelInterpretationError_def)

lemma fencedReply_parses:
  "map_sum id asGeneratedModel (cleanAndParseJSON JSON_parse fencedReply) =
     Inr (Some \<lparr>name = ''Cube'',
                parts = Some [\<lparr>part_id = ''part_01'', type = BOX, position = (0, 1, 0),
                               rotation = (0, 0, 0), scale = Some (2, 2, 2), args = None,
                               color = ''#FF0000'', description = ''Body''\<rparr>]\<rparr>)"
  by code_simp

lemma proseReply_parses:
  "map_sum id asGeneratedModel (cleanAndParseJSON JSON_parse proseReply) =
     Inr (Some \<lparr>name = ''X'', parts = Some []\<rparr>)"
  by code_simp

text \<open>
  C2. The text given to \<open>JSON.parse\<close> is the extracted text without its trailing commas,
  and what \<open>JSON.parse\<close> returns for it is returned. The extraction takes group 1 of
  the code block expression when it matches, and that group is an object text
  \<open>{ ... }\<close> standing in the raw text between an opening fence (with the tag
  \<open>json\<close> in any case, or none) and a closing fence, white space allowed around it;
  a text of that form, without a back quote before the fence or inside the object, gives
  the object. Without a match the extraction takes the text from the first \<open>{\<close>
  through the last \<open>}\<close> when that one comes later, and the whole text otherwise. The
  fenced reply with trailing commas after a preamble and the object inside prose both parse
  to a value with the shape of a model.
\<close>

theorem extraction_first_match_wins:
  "cleanText raw = dropTrailingCommas (extractText raw) \<and>
   (P (cleanText raw) = Some v \<longrightarrow> cleanAndParseJSON P raw = Inr v) \<and>
   (codeBlockMatch raw = Some g \<longrightarrow>
      extractText raw = g \<and>
      (\<exists>pre tag ws1 ws2 post.
         raw = pre @ ''```'' @ tag @ ws1 @ g @ ws2 @ ''```'' @ post \<and>
         (tag = [] \<or> isJsonTag tag) \<and> list_all isSpace ws1 \<and> list_all isSpace ws2 \<and>
         g \<noteq> [] \<and> hd g = CHR ''{'' \<and> last g = CHR ''}'')) \<and>
   (CHR 0x60 \<notin> set pre' \<and> (tag' = [] \<or> isJsonTag tag') \<and> list_all isSpace ws1' \<and>
    list_all isSpace ws2' \<and> CHR 0x60 \<notin> set body \<longrightarrow>
      extractText (pre' @ ''```'' @ tag' @ ws1' @ CHR ''{'' # body @ CHR ''}'' # ws2' @ ''```''
                     @ post')
        = CHR ''{'' # body @ [CHR ''}'']) \<and>
   (codeBlockMatch raw = None \<and> indexOf (CHR ''{'') raw = Some i \<and>
    lastIndexOf (CHR ''}'') raw = Some j \<and> i < j \<longrightarrow>
      extractText raw = drop i (take (j + 1) raw) \<and>
      raw ! i = CHR ''{'' \<and> (\<forall>k < i. raw ! k \<noteq> CHR ''{'') \<and>
      raw ! j = CHR ''}'' \<and> (\<forall>k. j < k \<and> k < length raw \<longrightarrow> raw ! k \<noteq> CHR ''}'')) \<and>
   (codeBlockMatch raw = None \<and>
    (\<nexists>i j. indexOf (CHR ''{'') raw = Some i \<and> lastIndexOf (CHR ''}'') raw = Some j \<and> i < j)
      \<longrightarrow> extractText raw = raw) \<and>
   map_sum id asGeneratedModel (cleanAndParseJSON JSON_parse fencedReply) =
     Inr (Some \<lparr>name = ''Cube'',
                parts = Some [\<lparr>part_id = ''part_01'', type = BOX, position = (0, 1, 0),
                               rotation = (0, 0, 0), scale = Some (2, 2, 2), args = None,
                               color = ''#FF0000'', description = ''Body''\<rparr>]\<rparr>) \<and>
   map_sum id asGeneratedModel (cleanAndParseJSON JSON_parse proseReply) =
     Inr (Some \<lparr>name = ''X'', parts = Some []\<rparr>)"
proof -
  have a: "cleanText raw = dropTrailingCommas (extractText raw)"
    by (simp add: cleanText_def stripTrailingCommas_eq)
  have b: "P (cleanText raw) = Some v \<longrightarrow> cleanAndParseJSON P raw = Inr v"
    by (simp add: cleanAndParseJSON_Some)
  have c: "codeBlockMatch raw = Some g \<longrightarrow>
      extractText raw = g \<and>
      (\<exists>pre tag ws1 ws2 post.
         raw = pre @ ''```'' @ tag @ ws1 @ g @ ws2 @ ''```'' @ post \<and>
         (tag = [] \<or> isJsonTag tag) \<and> list_all isSpace ws1 \<and> list_all isSpace ws2 \<and>
         g \<noteq> [] \<and> hd g = CHR ''{'' \<and> last g = CHR ''}'')"
    using extractText_fenced [of raw g] codeBlockMatch_split [of raw g] by blast
  have d: "CHR 0x60 \<notin> set pre' \<and> (tag' = [] \<or> isJsonTag tag') \<and> list_all isSpace ws1' \<and>
    list_all isSpace ws2' \<and> CHR 0x60 \<notin> set body \<longrightarrow>
      extractText (pre' @ ''```'' @ tag' @ ws1' @ CHR ''{'' # body @ CHR ''}'' # ws2' @ ''```''
                     @ post')
        = CHR ''{'' # body @ [CHR ''}'']"
    using codeBlockMatch_complete [of pre' tag' ws1' ws2' body post']
    by (auto simp: extractText_def)
  have e: "codeBlockMatch raw = None \<and> indexOf (CHR ''{'') raw = Some i \<and>
    lastIndexOf (CHR ''}'') raw = Some j \<and> i < j \<longrightarrow>
      extractText raw = drop i (take (j + 1) raw) \<and>
      raw ! i = CHR ''{'' \<and> (\<forall>k < i. raw ! k \<noteq> CHR ''{'') \<and>
      raw ! j = CHR ''}'' \<and> (\<forall>k. j < k \<and> k < length raw \<longrightarrow> raw ! k \<noteq> CHR ''}'')"
    using extractText_braces [of raw i j] indexOf_Some [of "CHR ''{''" raw i]
      lastIndexOf_Some [of "CHR ''}''" raw j]
    by blast
  have f: "codeBlockMatch raw = None \<and>
    (\<nexists>i j. indexOf (CHR ''{'') raw = Some i \<and> lastIndexOf (CHR ''}'') raw = Some j \<and> i < j)
      \<longrightarrow> extractText raw = raw"
    using extractText_whole [of raw] by blast
  from a b c d e f fencedReply_parses proseReply_parses show ?thesis
    by (intro conjI)
qed

lemma fencedReply_match: "codeBlockMatch fencedReply = Some fencedObject"
  by code_simp

lemma fencedObject_clean: "dropTrailingCommas fencedObject = fencedClean"
  by code_simp

lemma proseReply_match:
  "codeBlockMatch proseReply = None \<and> indexOf (CHR ''{'') proseReply = Some 19 \<and>
   lastIndexOf (CHR ''}'') proseReply = Some 41 \<and> (19::nat) < 41"
  by code_simp

lemma proseReply_substring: "drop 19 (take (41 + 1) proseReply) = proseObject"
  by code_simp

lemma proseObject_parse:
  "JSON_parse (dropTrailingCommas proseObject) =
     Some (JObject [(''name'', JString ''X''), (''parts'', JArray [])])"
  by code_simp

text \<open>The two replies: what is extracted, cleaned and parsed.\<close>

theorem extraction_first_match_wins_witness:
  "extractText fencedReply = fencedObject \<and> cleanText fencedReply = fencedClean \<and>
   extractText proseReply = proseObject \<and>
   cleanAndParseJSON JSON_parse proseReply =
     Inr (JObject [(''name'', JString ''X''), (''parts'', JArray [])])"
proof -
  let ?v = "JObject [(''name'', JString ''X''), (''parts'', JArray [])]"
  note f = extraction_first_match_wins
    [of fencedReply JSON_parse ?v fencedObject "[]" "[]" "[]" "[]" "[]" "[]" 0 0]
  note p = extraction_first_match_wins
    [of proseReply JSON_parse ?v fencedObject "[]" "[]" "[]" "[]" "[]" "[]" 19 41]
  have a: "extractText fencedReply = fencedObject"
    by (rule f [THEN conjunct2, THEN conjunct2, THEN conjunct1, THEN mp, OF fencedReply_match,
          THEN conjunct1])
  have b: "cleanText fencedReply = fencedClean"
    by (simp only: f [THEN conjunct1] a fencedObject_clean)
  have c: "extractText proseReply = drop 19 (take (41 + 1) proseReply)"
    by (rule p [THEN conjunct2, THEN conjunct2, THEN conjunct2, THEN conjunct2, THEN conjunct1,
          THEN mp, OF proseReply_match, THEN conjunct1])
  have c': "extractText proseReply = proseObject"
    by (simp only: c proseReply_substring)
  have "JSON_parse (cleanText proseReply) = Some ?v"
    by (simp only: p [THEN conjunct1] c' proseObject_parse)
  then have d: "cleanAndParseJSON JSON_parse proseReply = Inr ?v"
    by (rule p [THEN conjunct2, THEN conjunct1, THEN mp])
  from a b c' d show ?thesis by (intro conjI)
qed

section \<open>cleanAndParseJSON: failure\<close>

lemma dropTrailingCommas_no_close:
  assumes "CHR ''}'' \<notin> set cs" and "CHR '']'' \<notin> set cs"
  shows "dropTrailingCommas cs = cs"
  using assms
proof (induction cs)
  case Nil
  show ?case by simp
next
  case (Cons c cs)
  have "\<not> (case dropWhile isSpace cs of [] \<Rightarrow> False
            | b # rest \<Rightarrow> b = CHR ''}'' \<or> b = CHR '']'')"
  proof (cases "dropWhile isSpace cs")
    case Nil
    show ?thesis unfolding Nil by simp
  next
    case (Cons b rest)
    then have "b \<in> set cs" by (metis list.set_intros(1) set_dropWhileD)
    with Cons.prems have "b \<noteq> CHR ''}''" "b \<noteq> CHR '']''" by auto
    then show ?thesis unfolding Cons by simp
  qed
  with Cons show ?case by simp
qed

lemma cleanText_no_braces:
  assumes "CHR ''{'' \<notin> set raw"
  shows "cleanText raw = dropTrailingCommas raw"
proof -
  from assms have "codeBlockMatch raw = None" by (rule codeBlockMatch_needs_brace)
  moreover from assms have "indexOf (CHR ''{'') raw = None" by (simp add: indexOf_None)
  ultimately have "extractText raw = raw" by (simp add: extractText_def)
  then show ?thesis by (simp add: cleanText_def stripTrailingCommas_eq)
qed

lemma generate3DModel_parse_failure:
  assumes "Q (cleanText raw) = None" and "key \<noteq> []" and "raw \<noteq> []"
  shows "generate3DModel Q (Some key) (Inr (Some raw)) = Inl modelInterpretationError"
  using assms by (simp add: generate3DModel_def cleanAndParseJSON_None)

text \<open>
  C5. When \<open>JSON.parse\<close> fails on the cleaned text, \<open>cleanAndParseJSON\<close> fails with
  the error whose message is "Could not interpret the model data. The design was too
  abstract."; \<open>JSON.parse\<close> is not tried again on anything else. \<open>generate3DModel\<close>
  fails with the same error, and the \<open>catch\<close> block of \<open>handleGenerate\<close> shows
  its message and ends the request in the state ERROR with progress 0. For a text without
  \<open>{\<close> nothing is extracted: the cleaned text is the text without its trailing
  commas, and the text itself when it has no \<open>}\<close> and no \<open>]\<close> either.
\<close>

theorem parse_failure_is_terminal:
  "(P (cleanText raw) = None \<longrightarrow> cleanAndParseJSON P raw = Inl modelInterpretationError) \<and>
   (Q (cleanText raw) = None \<and> key \<noteq> [] \<and> raw \<noteq> [] \<longrightarrow>
      generate3DModel Q (Some key) (Inr (Some raw)) = Inl modelInterpretationError) \<and>
   notification (handleGenerateCatch modelInterpretationError st) =
     Some \<lparr>ntype = ''error'',
           message = ''Could not interpret the model data. The design was too abstract.''\<rparr> \<and>
   generationState (handleGenerateCatch modelInterpretationError st) =
     \<lparr>isGenerating = False, progress = 0, status = ''ERROR''\<rparr> \<and>
   (CHR ''{'' \<notin> set raw \<longrightarrow> cleanText raw = dropTrailingCommas raw) \<and>
   (CHR ''{'' \<notin> set raw \<and> CHR ''}'' \<notin> set raw \<and> CHR '']'' \<notin> set raw \<longrightarrow> cleanText raw = raw)"
proof -
  have a: "P (cleanText raw) = None \<longrightarrow> cleanAndParseJSON P raw = Inl modelInterpretationError"
    by (simp add: cleanAndParseJSON_None)
  have b: "Q (cleanText raw) = None \<and> key \<noteq> [] \<and> raw \<noteq> [] \<longrightarrow>
      generate3DModel Q (Some key) (Inr (Some raw)) = Inl modelInterpretationError"
    by (simp add: generate3DModel_parse_failure)
  have c: "notification (handleGenerateCatch modelInterpretationError st) =
     Some \<lparr>ntype = ''error'',
           message = ''Could not interpret the model data. The design was too abstract.''\<rparr>"
    "generationState (handleGenerateCatch modelInterpretationError st) =
     \<lparr>isGenerating = False, progress = 0, status = ''ERROR''\<rparr>"
    by (simp_all add: handleGenerateCatch_def modelInterpretationError_def)
  have d: "CHR ''{'' \<notin> set raw \<longrightarrow> cleanText raw = dropTrailingCommas raw"
    by (simp add: cleanText_no_braces)
  have e: "CHR ''{'' \<notin> set raw \<and> CHR ''}'' \<notin> set raw \<and> CHR '']'' \<notin> set raw \<longrightarrow> cleanText raw = raw"
    by (simp add: cleanText_no_braces dropTrailingCommas_no_close)
  from a b c d e show ?thesis by (intro conjI)
qed

lemma plainReply_facts:
  "JSON_parse plainReply = None \<and> parseModel plainReply = None \<and>
   CHR ''{'' \<notin> set plainReply \<and> CHR ''}'' \<notin> set plainReply \<and> CHR '']'' \<notin> set plainReply \<and>
   ''key'' \<noteq> [] \<and> plainReply \<noteq> []"
  by code_simp

text \<open>A reply of prose only.\<close>

theorem parse_failure_is_terminal_witness:
  "cleanText plainReply = plainReply \<and> JSON_parse plainReply = None \<and>
   cleanAndParseJSON JSON_parse plainReply = Inl modelInterpretationError \<and>
   generate3DModel parseModel (Some ''key'') (Inr (Some plainReply)) =
     Inl modelInterpretationError"
proof -
  note t = parse_failure_is_terminal [of JSON_parse plainReply parseModel "''key''"]
  note f = plainReply_facts
  have a: "cleanText plainReply = plainReply"
    using t f by blast
  have b: "JSON_parse (cleanText plainReply) = None" "parseModel (cleanText plainReply) = None"
    using f by (simp_all only: a)
  have c: "cleanAndParseJSON JSON_parse plainReply = Inl modelInterpretationError"
    using t b by blast
  have d: "generate3DModel parseModel (Some ''key'') (Inr (Some plainReply)) =
     Inl modelInterpretationError"
    using t b f by blast
  from a f c d show ?thesis by blast
qed

section \<open>cleanAndParseJSON: no validation\<close>

text \<open>
  C10. \<open>cleanAndParseJSON\<close> fails if and only if \<open>JSON.parse\<close> fails on the cleaned
  text, and otherwise returns the parsed value as it is: \<open>null\<close>, a number, an array,
  an object without \<open>parts\<close> and an object without \<open>name\<close> are all returned.
  A model without \<open>parts\<close> passes \<open>normalizeModelData\<close> unchanged through its
  guard, and reading \<open>parts.length\<close> for the build speed throws.
\<close>

theorem parse_step_has_no_validation:
  "((\<exists>e. cleanAndParseJSON P raw = Inl e) \<longleftrightarrow> P (cleanText raw) = None) \<and>
   (P (cleanText raw) = Some v \<longrightarrow> cleanAndParseJSON P raw = Inr v) \<and>
   cleanAndParseJSON JSON_parse ''null'' = Inr JNull \<and>
   cleanAndParseJSON JSON_parse ''42'' = Inr (JNumber 42) \<and>
   cleanAndParseJSON JSON_parse ''[1, 2]'' = Inr (JArray [JNumber 1, JNumber 2]) \<and>
   cleanAndParseJSON JSON_parse ''{\"name\":\"X\"}'' = Inr (JObject [(''name'', JString ''X'')]) \<and>
   cleanAndParseJSON JSON_parse ''{\"parts\":[]}'' = Inr (JObject [(''parts'', JArray [])]) \<and>
   normalizeModelData (m\<lparr>parts := None\<rparr>) = m\<lparr>parts := None\<rparr> \<and>
   deriveBuildingSpeed (m\<lparr>parts := None\<rparr>) = None"
proof -
  have a: "(\<exists>e. cleanAndParseJSON P raw = Inl e) \<longleftrightarrow> P (cleanText raw) = None"
    by (simp add: cleanAndParseJSON_def split: option.splits)
  have b: "P (cleanText raw) = Some v \<longrightarrow> cleanAndParseJSON P raw = Inr v"
    by (simp add: cleanAndParseJSON_Some)
  have c: "cleanAndParseJSON JSON_parse ''null'' = Inr JNull"
    "cleanAndParseJSON JSON_parse ''42'' = Inr (JNumber 42)"
    "cleanAndParseJSON JSON_parse ''[1, 2]'' = Inr (JArray [JNumber 1, JNumber 2])"
    "cleanAndParseJSON JSON_parse ''{\"name\":\"X\"}'' = Inr (JObject [(''name'', JString ''X'')])"
    "cleanAndParseJSON JSON_parse ''{\"parts\":[]}'' = Inr (JObject [(''parts'', JArray [])])"
    by code_simp+
  have d: "normalizeModelData (m\<lparr>parts := None\<rparr>) = m\<lparr>parts := None\<rparr>"
    "deriveBuildingSpeed (m\<lparr>parts := None\<rparr>) = None"
    by (simp_all add: normalizeModelData_def deriveBuildingSpeed_def)
  from a b c d show ?thesis by (intro conjI)
qed

lemma namedOnlyReply_facts:
  "JSON_parse (cleanText namedOnlyReply) = Some (JObject [(''name'', JString ''X'')]) \<and>
   asGeneratedModel (JObject [(''name'', JString ''X'')]) = Some \<lparr>name = ''X'', parts = None\<rparr>"
  by code_simp

text \<open>An object with a name only.\<close>

theorem parse_step_has_no_validation_witness:
  "cleanAndParseJSON JSON_parse namedOnlyReply = Inr (JObject [(''name'', JString ''X'')]) \<and>
   asGeneratedModel (JObject [(''name'', JString ''X'')]) = Some \<lparr>name = ''X'', parts = None\<rparr> \<and>
   normalizeModelData \<lparr>name = ''X'', parts = None\<rparr> = \<lparr>name = ''X'', parts = None\<rparr> \<and>
   deriveBuildingSpeed \<lparr>name = ''X'', parts = None\<rparr> = None"
proof -
  note t = parse_step_has_no_validation
    [of JSON_parse namedOnlyReply "JObject [(''name'', JString ''X'')]"
        "\<lparr>name = ''X'', parts = None\<rparr>"]
  have a: "cleanAndParseJSON JSON_parse namedOnlyReply = Inr (JObject [(''name'', JString ''X'')])"
    by (rule t [THEN conjunct2, THEN conjunct1, THEN mp, OF namedOnlyReply_facts [THEN conjunct1]])
  have b: "normalizeModelData \<lparr>name = ''X'', parts = None\<rparr> = \<lparr>name = ''X'', parts = None\<rparr>"
    "deriveBuildingSpeed \<lparr>name = ''X'', parts = None\<rparr> = None"
    using t by simp_all
  from a b namedOnlyReply_facts show ?thesis by blast
qed

end
